theory Spec2Isabelle
  imports Main "HOL-Library.AList"
begin

section \<open>The platform the data-access layer runs on\<close>

text \<open>
  The service is TypeScript; at run time its values are JavaScript values. Everything the
  layer stores is JSON text in \<open>localStorage\<close>, so the values that flow through it are
  the values \<open>JSON.parse\<close> can return. Strings are character lists: the layer only
  concatenates them, compares them and removes the character \<open>+\<close>, which acts the same on
  bytes and on UTF-16 units. Numbers are kept abstract (type \<open>'n\<close>): no operation of the
  layer computes with them.
\<close>

datatype 'n json =
    JNull
  | JBool bool
  | JNum 'n
  | JStr string
  | JArr "'n json list"
  | JObj "(string \<times> 'n json) list"

text \<open>The two exceptions the layer can meet: \<open>JSON.parse\<close> on malformed text, and a
  member access or method call on a value that does not support it.\<close>

datatype error = SyntaxError | TypeError

text \<open>\<open>localStorage\<close>: \<open>getItem\<close> is application (\<open>None\<close> is \<open>null\<close>),
  \<open>setItem\<close> is \<open>ls(k \<mapsto> v)\<close>, \<open>removeItem\<close> is \<open>ls(k := None)\<close>. Storage is
  assumed not to run out of quota.\<close>

type_synonym storage = "string \<rightharpoonup> string"

text \<open>
  What the source takes from its environment: whether \<open>window\<close> is defined, the built-in
  \<open>JSON.parse\<close> (\<open>None\<close> when it throws a SyntaxError) and \<open>JSON.stringify\<close>, and
  \<open>String.prototype.toLowerCase\<close>. They are parameters of every operation below.
\<close>

record 'n env =
  has_window :: bool
  JSON_parse :: "string \<Rightarrow> 'n json option"
  JSON_stringify :: "'n json \<Rightarrow> string"
  toLowerCase :: "string \<Rightarrow> string"

text \<open>Truthiness of a \<open>string | null | undefined\<close>: only a non-empty string is truthy.\<close>

fun truthy :: "string option \<Rightarrow> bool" where
  "truthy None = False"
| "truthy (Some s) = (s \<noteq> [])"

text \<open>Truthiness of a parsed value.\<close>

fun js_truthy :: "('n::zero) json \<Rightarrow> bool" where
  "js_truthy JNull = False"
| "js_truthy (JBool b) = b"
| "js_truthy (JNum n) = (n \<noteq> 0)"
| "js_truthy (JStr s) = (s \<noteq> [])"
| "js_truthy (JArr xs) = True"
| "js_truthy (JObj fs) = True"

text \<open>
  \<open>x.p\<close> for one of the property names the layer reads (\<open>id\<close>, \<open>name\<close>, \<open>phone\<close>,
  \<open>category\<close>; none of them is a built-in property of a string, number, boolean or array): reading a
  property of \<open>null\<close> throws, an object yields its member, everything else yields
  \<open>undefined\<close> (\<open>None\<close>).
\<close>

fun get_prop :: "'n json \<Rightarrow> string \<Rightarrow> error + 'n json option" where
  "get_prop JNull p = Inl TypeError"
| "get_prop (JObj fs) p = Inr (map_of fs p)"
| "get_prop (JBool b) p = Inr None"
| "get_prop (JNum n) p = Inr None"
| "get_prop (JStr s) p = Inr None"
| "get_prop (JArr xs) p = Inr None"

text \<open>\<open>s.replace(/\+/g, '')\<close>\<close>

definition strip_plus :: "string \<Rightarrow> string" where
  "strip_plus s = filter (\<lambda>c. c \<noteq> CHR ''+'') s"

text \<open>
  \<open>v?.replace(/\+/g, '')\<close>: \<open>undefined\<close> and \<open>null\<close> short-circuit to \<open>undefined\<close>, a
  string has its \<open>+\<close> removed, and any other value has no callable \<open>replace\<close>.
\<close>

fun opt_strip_plus :: "'n json option \<Rightarrow> error + string option" where
  "opt_strip_plus None = Inr None"
| "opt_strip_plus (Some JNull) = Inr None"
| "opt_strip_plus (Some (JStr s)) = Inr (Some (strip_plus s))"
| "opt_strip_plus (Some (JBool b)) = Inl TypeError"
| "opt_strip_plus (Some (JNum n)) = Inl TypeError"
| "opt_strip_plus (Some (JArr xs)) = Inl TypeError"
| "opt_strip_plus (Some (JObj fs)) = Inl TypeError"

text \<open>Object spread \<open>{...a, ...b}\<close> on member lists: a member of \<open>b\<close> overwrites the
  member of \<open>a\<close> with its key in place, and is appended when \<open>a\<close> has none.\<close>

definition spread :: "(string \<times> 'n json) list \<Rightarrow> (string \<times> 'n json) list \<Rightarrow> (string \<times> 'n json) list" where
  "spread a b = fold (\<lambda>kv acc. AList.update (fst kv) (snd kv) acc) b a"

section \<open>Storage keys\<close>

abbreviation STORAGE_KEYS_USER_PROFILE :: string where
  "STORAGE_KEYS_USER_PROFILE \<equiv> ''transactai_user_profile''"

abbreviation STORAGE_KEYS_TRANSACTIONS :: string where
  "STORAGE_KEYS_TRANSACTIONS \<equiv> ''transactai_transactions''"

abbreviation STORAGE_KEYS_CATEGORIES :: string where
  "STORAGE_KEYS_CATEGORIES \<equiv> ''transactai_categories''"

abbreviation STORAGE_KEYS_PIN :: string where
  "STORAGE_KEYS_PIN \<equiv> ''transactai_pin''"

abbreviation STORAGE_KEYS_AUTH_SESSION :: string where
  "STORAGE_KEYS_AUTH_SESSION \<equiv> ''transactai_auth_session''"

abbreviation STORAGE_KEYS_DOWNLOADS :: string where
  "STORAGE_KEYS_DOWNLOADS \<equiv> ''transactai_downloads''"

text \<open>
  \<open>getUserKey(baseKey, userId)\<close>. The \<open>try\<close> block reads the session text, parses it and
  takes \<open>parsed.phone?.replace(/\+/g, '') || 'default'\<close>; every exception raised inside
  (a SyntaxError of the parse, a TypeError of the member access) is caught and the
  function falls through to \<open>return baseKey\<close>.
\<close>

definition getUserKey :: "'n env \<Rightarrow> storage \<Rightarrow> string \<Rightarrow> string option \<Rightarrow> string" where
  "getUserKey e ls baseKey userId =
    (if truthy userId then baseKey @ ''_'' @ the userId
     else if \<not> has_window e then baseKey
     else (case ls STORAGE_KEYS_AUTH_SESSION of
        None \<Rightarrow> baseKey
      | Some session \<Rightarrow>
          if session = [] then baseKey
          else (case JSON_parse e session of
              None \<Rightarrow> baseKey
            | Some parsed \<Rightarrow>
               (case get_prop parsed ''phone'' of
                  Inl err \<Rightarrow> baseKey
                | Inr ph \<Rightarrow>
                   (case opt_strip_plus ph of
                      Inl err \<Rightarrow> baseKey
                    | Inr r \<Rightarrow> baseKey @ ''_'' @ (if truthy r then the r else ''default''))))))"

section \<open>Reading and writing collections\<close>

text \<open>\<open>data ? JSON.parse(data) : dflt\<close>: an absent or empty text yields the default and is
  never parsed; a parse that throws propagates.\<close>

definition parse_or_default :: "'n env \<Rightarrow> string option \<Rightarrow> 'n json \<Rightarrow> error + 'n json" where
  "parse_or_default e data dflt =
    (if truthy data then (case JSON_parse e (the data) of None \<Rightarrow> Inl SyntaxError | Some v \<Rightarrow> Inr v)
     else Inr dflt)"

text \<open>
  The array methods the layer calls (\<open>push\<close>, \<open>unshift\<close>, \<open>findIndex\<close>, \<open>find\<close>,
  \<open>filter\<close>, \<open>map\<close>) exist on arrays only: on any other parsed value the call throws a
  TypeError.
\<close>

fun as_array :: "'n json \<Rightarrow> error + 'n json list" where
  "as_array (JArr xs) = Inr xs"
| "as_array JNull = Inl TypeError"
| "as_array (JBool b) = Inl TypeError"
| "as_array (JNum n) = Inl TypeError"
| "as_array (JStr s) = Inl TypeError"
| "as_array (JObj fs) = Inl TypeError"

text \<open>\<open>findIndex\<close>, \<open>find\<close> and \<open>filter\<close> with a callback that may throw: elements are
  visited from the front, and the first exception ends the call. \<open>None\<close> is the index
  \<open>-1\<close>, respectively \<open>undefined\<close>.\<close>

fun findIndex :: "('a \<Rightarrow> error + bool) \<Rightarrow> 'a list \<Rightarrow> error + nat option" where
  "findIndex p [] = Inr None"
| "findIndex p (x # xs) =
    (case p x of
       Inl err \<Rightarrow> Inl err
     | Inr b \<Rightarrow>
        if b then Inr (Some 0)
        else (case findIndex p xs of
                Inl err \<Rightarrow> Inl err
              | Inr None \<Rightarrow> Inr None
              | Inr (Some i) \<Rightarrow> Inr (Some (Suc i))))"

fun find_first :: "('a \<Rightarrow> error + bool) \<Rightarrow> 'a list \<Rightarrow> error + 'a option" where
  "find_first p [] = Inr None"
| "find_first p (x # xs) =
    (case p x of
       Inl err \<Rightarrow> Inl err
     | Inr b \<Rightarrow> if b then Inr (Some x) else find_first p xs)"

fun filter_arr :: "('a \<Rightarrow> error + bool) \<Rightarrow> 'a list \<Rightarrow> error + 'a list" where
  "filter_arr p [] = Inr []"
| "filter_arr p (x # xs) =
    (case p x of
       Inl err \<Rightarrow> Inl err
     | Inr b \<Rightarrow>
        (case filter_arr p xs of
           Inl err \<Rightarrow> Inl err
         | Inr ys \<Rightarrow> Inr (if b then x # ys else ys)))"

text \<open>The callbacks: \<open>t => t.id === id\<close>, \<open>t => t.id !== id\<close>,
  \<open>t => t.category === category\<close>,
  \<open>c => c.name !== categoryName\<close> and
  \<open>c => c.name.toLowerCase() === categoryName.toLowerCase()\<close>. Strict equality with a
  string holds for that string only; \<open>toLowerCase\<close> is callable on a string only.\<close>

definition prop_is :: "string \<Rightarrow> string \<Rightarrow> 'n json \<Rightarrow> error + bool" where
  "prop_is p s t = (case get_prop t p of Inl err \<Rightarrow> Inl err | Inr v \<Rightarrow> Inr (v = Some (JStr s)))"

definition prop_is_not :: "string \<Rightarrow> string \<Rightarrow> 'n json \<Rightarrow> error + bool" where
  "prop_is_not p s t = (case get_prop t p of Inl err \<Rightarrow> Inl err | Inr v \<Rightarrow> Inr (v \<noteq> Some (JStr s)))"

definition name_matches :: "'n env \<Rightarrow> string \<Rightarrow> 'n json \<Rightarrow> error + bool" where
  "name_matches e categoryName c =
    (case get_prop c ''name'' of
       Inl err \<Rightarrow> Inl err
     | Inr (Some (JStr s)) \<Rightarrow> Inr (toLowerCase e s = toLowerCase e categoryName)
     | Inr _ \<Rightarrow> Inl TypeError)"

section \<open>userService\<close>

text \<open>\<open>now\<close> is the value of \<open>new Date().toISOString()\<close> at the call. The profile is an
  object, given by its members.\<close>

definition userService_saveProfile ::
  "'n env \<Rightarrow> storage \<Rightarrow> string \<Rightarrow> (string \<times> 'n json) list \<Rightarrow> string option \<Rightarrow> error + storage" where
  "userService_saveProfile e ls now profile userId =
    (if \<not> has_window e then Inr ls
     else
       let data = JObj (spread profile [(''updatedAt'', JStr now)]) in
       (case (if truthy userId then Inr userId else opt_strip_plus (map_of profile ''phone'')) of
          Inl err \<Rightarrow> Inl err
        | Inr uid \<Rightarrow>
            Inr (ls(getUserKey e ls STORAGE_KEYS_USER_PROFILE uid \<mapsto> JSON_stringify e data))))"

definition userService_getProfile :: "'n env \<Rightarrow> storage \<Rightarrow> string option \<Rightarrow> error + 'n json" where
  "userService_getProfile e ls userId =
    (if \<not> has_window e then Inr JNull
     else parse_or_default e (ls (getUserKey e ls STORAGE_KEYS_USER_PROFILE userId)) JNull)"

section \<open>transactionService\<close>

definition transactionService_getAll :: "'n env \<Rightarrow> storage \<Rightarrow> string option \<Rightarrow> error + 'n json" where
  "transactionService_getAll e ls userId =
    (if \<not> has_window e then Inr (JArr [])
     else parse_or_default e (ls (getUserKey e ls STORAGE_KEYS_TRANSACTIONS userId)) (JArr []))"

definition transactionService_save ::
  "'n env \<Rightarrow> storage \<Rightarrow> 'n json \<Rightarrow> string option \<Rightarrow> error + storage" where
  "transactionService_save e ls transaction userId =
    (if \<not> has_window e then Inr ls
     else (case transactionService_getAll e ls userId of
        Inl err \<Rightarrow> Inl err
      | Inr got \<Rightarrow>
         (case as_array got of
            Inl err \<Rightarrow> Inl err
          | Inr transactions \<Rightarrow>
              Inr (ls(getUserKey e ls STORAGE_KEYS_TRANSACTIONS userId \<mapsto>
                      JSON_stringify e (JArr (transactions @ [transaction])))))))"


text \<open>\<open>update\<close>: the element at the index \<open>findIndex\<close> returned is replaced by
  \<open>{...transactions[index], ...updates}\<close>. \<open>findIndex\<close> selects an element only when its
  \<open>id\<close> is the string asked for, so the element is an object (lemma
  \<open>findIndex_prop_is_Some\<close> below); the last case is there for totality only.\<close>

definition transactionService_update ::
  "'n env \<Rightarrow> storage \<Rightarrow> string \<Rightarrow> (string \<times> 'n json) list \<Rightarrow> string option \<Rightarrow> error + storage" where
  "transactionService_update e ls ident updates userId =
    (if \<not> has_window e then Inr ls
     else (case transactionService_getAll e ls userId of
        Inl err \<Rightarrow> Inl err
      | Inr got \<Rightarrow>
         (case as_array got of
            Inl err \<Rightarrow> Inl err
          | Inr transactions \<Rightarrow>
             (case findIndex (prop_is ''id'' ident) transactions of
                Inl err \<Rightarrow> Inl err
              | Inr None \<Rightarrow> Inr ls
              | Inr (Some index) \<Rightarrow>
                 (case transactions ! index of
                    JObj fs \<Rightarrow>
                      Inr (ls(getUserKey e ls STORAGE_KEYS_TRANSACTIONS userId \<mapsto>
                              JSON_stringify e (JArr (transactions[index := JObj (spread fs updates)]))))
                  | _ \<Rightarrow> Inl TypeError)))))"

definition transactionService_delete ::
  "'n env \<Rightarrow> storage \<Rightarrow> string \<Rightarrow> string option \<Rightarrow> error + storage" where
  "transactionService_delete e ls ident userId =
    (if \<not> has_window e then Inr ls
     else (case transactionService_getAll e ls userId of
        Inl err \<Rightarrow> Inl err
      | Inr got \<Rightarrow>
         (case as_array got of
            Inl err \<Rightarrow> Inl err
          | Inr transactions \<Rightarrow>
             (case filter_arr (prop_is_not ''id'' ident) transactions of
                Inl err \<Rightarrow> Inl err
              | Inr filtered \<Rightarrow>
                  Inr (ls(getUserKey e ls STORAGE_KEYS_TRANSACTIONS userId \<mapsto>
                          JSON_stringify e (JArr filtered)))))))"

definition transactionService_getByCategory ::
  "'n env \<Rightarrow> storage \<Rightarrow> string \<Rightarrow> string option \<Rightarrow> error + 'n json list" where
  "transactionService_getByCategory e ls category userId =
    (case transactionService_getAll e ls userId of
       Inl err \<Rightarrow> Inl err
     | Inr got \<Rightarrow>
        (case as_array got of
           Inl err \<Rightarrow> Inl err
         | Inr transactions \<Rightarrow> filter_arr (prop_is ''category'' category) transactions))"

section \<open>categoryService\<close>

definition categoryService_getAll :: "'n env \<Rightarrow> storage \<Rightarrow> string option \<Rightarrow> error + 'n json" where
  "categoryService_getAll e ls userId =
    (if \<not> has_window e then Inr (JArr [])
     else parse_or_default e (ls (getUserKey e ls STORAGE_KEYS_CATEGORIES userId)) (JArr []))"

definition categoryService_add ::
  "('n::zero) env \<Rightarrow> storage \<Rightarrow> string \<Rightarrow> string \<Rightarrow> string option \<Rightarrow> error + storage" where
  "categoryService_add e ls now categoryName userId =
    (if \<not> has_window e then Inr ls
     else (case categoryService_getAll e ls userId of
        Inl err \<Rightarrow> Inl err
      | Inr got \<Rightarrow>
         (case as_array got of
            Inl err \<Rightarrow> Inl err
          | Inr categories \<Rightarrow>
             (case find_first (name_matches e categoryName) categories of
                Inl err \<Rightarrow> Inl err
              | Inr found \<Rightarrow>
                  if \<not> (case found of None \<Rightarrow> False | Some c \<Rightarrow> js_truthy c)
                  then Inr (ls(getUserKey e ls STORAGE_KEYS_CATEGORIES userId \<mapsto>
                            JSON_stringify e
                              (JArr (categories @ [JObj [(''name'', JStr categoryName), (''createdAt'', JStr now)]]))))
                  else Inr ls))))"

definition categoryService_remove ::
  "'n env \<Rightarrow> storage \<Rightarrow> string \<Rightarrow> string option \<Rightarrow> error + storage" where
  "categoryService_remove e ls categoryName userId =
    (if \<not> has_window e then Inr ls
     else (case categoryService_getAll e ls userId of
        Inl err \<Rightarrow> Inl err
      | Inr got \<Rightarrow>
         (case as_array got of
            Inl err \<Rightarrow> Inl err
          | Inr categories \<Rightarrow>
             (case filter_arr (prop_is_not ''name'' categoryName) categories of
                Inl err \<Rightarrow> Inl err
              | Inr filtered \<Rightarrow>
                  Inr (ls(getUserKey e ls STORAGE_KEYS_CATEGORIES userId \<mapsto>
                          JSON_stringify e (JArr filtered)))))))"

section \<open>pinService\<close>


definition pinService_verify :: "'n env \<Rightarrow> storage \<Rightarrow> string \<Rightarrow> string option \<Rightarrow> bool" where
  "pinService_verify e ls pin userId =
    (if \<not> has_window e then False
     else ls (if truthy userId then STORAGE_KEYS_PIN @ ''_'' @ the userId else STORAGE_KEYS_PIN) = Some pin)"

definition pinService_exists :: "'n env \<Rightarrow> storage \<Rightarrow> string option \<Rightarrow> bool" where
  "pinService_exists e ls userId =
    (if \<not> has_window e then False
     else truthy (ls (if truthy userId then STORAGE_KEYS_PIN @ ''_'' @ the userId else STORAGE_KEYS_PIN)))"


definition pinService_get :: "'n env \<Rightarrow> storage \<Rightarrow> string option \<Rightarrow> string option" where
  "pinService_get e ls userId =
    (if \<not> has_window e then None
     else ls (if truthy userId then STORAGE_KEYS_PIN @ ''_'' @ the userId else STORAGE_KEYS_PIN))"

section \<open>authService\<close>


definition authService_getSession :: "'n env \<Rightarrow> storage \<Rightarrow> error + 'n json" where
  "authService_getSession e ls =
    (if \<not> has_window e then Inr JNull
     else parse_or_default e (ls STORAGE_KEYS_AUTH_SESSION) JNull)"

section \<open>downloadService\<close>

definition downloadService_getAll :: "'n env \<Rightarrow> storage \<Rightarrow> string option \<Rightarrow> error + 'n json" where
  "downloadService_getAll e ls userId =
    (if \<not> has_window e then Inr (JArr [])
     else parse_or_default e (ls (getUserKey e ls STORAGE_KEYS_DOWNLOADS userId)) (JArr []))"

definition downloadService_save ::
  "'n env \<Rightarrow> storage \<Rightarrow> 'n json \<Rightarrow> string option \<Rightarrow> error + storage" where
  "downloadService_save e ls download userId =
    (if \<not> has_window e then Inr ls
     else (case downloadService_getAll e ls userId of
        Inl err \<Rightarrow> Inl err
      | Inr got \<Rightarrow>
         (case as_array got of
            Inl err \<Rightarrow> Inl err
          | Inr downloads \<Rightarrow>
              let limited = take 50 (download # downloads) in
              Inr (ls(getUserKey e ls STORAGE_KEYS_DOWNLOADS userId \<mapsto>
                      JSON_stringify e (JArr limited))))))"

section \<open>A reference environment\<close>

text \<open>
  The examples below run the operations in a concrete environment. Its \<open>JSON.stringify\<close>
  writes a value without white space, as the built-in does; its \<open>JSON.parse\<close> is a
  recursive-descent reader of the JSON grammar with a step budget of twice the length of
  the text (every call consumes a character at least every second step). Two limits keep
  it small, and the examples stay inside them: numbers are integer literals, and a
  \<open>\u\<close> escape is read up to U+007F. \<open>toLowerCase\<close> maps the letters A to Z.
\<close>

definition digit_char :: "nat \<Rightarrow> char" where
  "digit_char d = ''0123456789abcdef'' ! d"

function show_nat :: "nat \<Rightarrow> string" where
  "show_nat n = (if n < 10 then [digit_char n] else show_nat (n div 10) @ [digit_char (n mod 10)])"
  by pat_completeness auto
termination
  by (relation "measure id") auto

declare show_nat.simps [simp del]

definition show_int :: "int \<Rightarrow> string" where
  "show_int i = (if i < 0 then CHR ''-'' # show_nat (nat (- i)) else show_nat (nat i))"

definition escape_char :: "char \<Rightarrow> string" where
  "escape_char c =
    (if c = CHR 0x22 then [CHR 0x5C, CHR 0x22]
     else if c = CHR 0x5C then [CHR 0x5C, CHR 0x5C]
     else if c = CHR 0x08 then [CHR 0x5C, CHR ''b'']
     else if c = CHR 0x09 then [CHR 0x5C, CHR ''t'']
     else if c = CHR 0x0A then [CHR 0x5C, CHR ''n'']
     else if c = CHR 0x0C then [CHR 0x5C, CHR ''f'']
     else if c = CHR 0x0D then [CHR 0x5C, CHR ''r'']
     else if (of_char c :: nat) < 32
       then [CHR 0x5C, CHR ''u'', CHR ''0'', CHR ''0'', digit_char (of_char c div 16), digit_char (of_char c mod 16)]
     else [c])"

definition quote :: "string \<Rightarrow> string" where
  "quote s = CHR 0x22 # concat (map escape_char s) @ [CHR 0x22]"

fun join_commas :: "string list \<Rightarrow> string" where
  "join_commas [] = []"
| "join_commas [x] = x"
| "join_commas (x # y # ys) = x @ '','' @ join_commas (y # ys)"

fun stringify :: "int json \<Rightarrow> string" where
  "stringify JNull = ''null''"
| "stringify (JBool b) = (if b then ''true'' else ''false'')"
| "stringify (JNum n) = show_int n"
| "stringify (JStr s) = quote s"
| "stringify (JArr xs) = ''['' @ join_commas (map stringify xs) @ '']''"
| "stringify (JObj fs) =
     ''{'' @ join_commas (map (\<lambda>kv. quote (fst kv) @ '':'' @ stringify (snd kv)) fs) @ ''}''"

definition is_ws :: "char \<Rightarrow> bool" where
  "is_ws c = (c = CHR '' '' \<or> c = CHR 0x09 \<or> c = CHR 0x0A \<or> c = CHR 0x0D)"

fun skip_ws :: "string \<Rightarrow> string" where
  "skip_ws [] = []"
| "skip_ws (c # cs) = (if is_ws c then skip_ws cs else c # cs)"

definition hex_val :: "char \<Rightarrow> nat option" where
  "hex_val c =
    (let n = (of_char c :: nat) in
     if 48 \<le> n \<and> n \<le> 57 then Some (n - 48)
     else if 97 \<le> n \<and> n \<le> 102 then Some (n - 87)
     else if 65 \<le> n \<and> n \<le> 70 then Some (n - 55)
     else None)"

definition unescape :: "char \<Rightarrow> char option" where
  "unescape c =
    (if c = CHR 0x22 \<or> c = CHR 0x5C \<or> c = CHR ''/'' then Some c
     else if c = CHR ''b'' then Some (CHR 0x08)
     else if c = CHR ''t'' then Some (CHR 0x09)
     else if c = CHR ''n'' then Some (CHR 0x0A)
     else if c = CHR ''f'' then Some (CHR 0x0C)
     else if c = CHR ''r'' then Some (CHR 0x0D)
     else None)"

fun parse_chars :: "string \<Rightarrow> (string \<times> string) option" where
  "parse_chars [] = None"
| "parse_chars (c # cs) =
    (if c = CHR 0x22 then Some ([], cs)
     else if c = CHR 0x5C then
       (case cs of
          [] \<Rightarrow> None
        | x # cs1 \<Rightarrow>
           if x = CHR ''u'' then
             (case cs1 of
                h1 # h2 # h3 # h4 # cs2 \<Rightarrow>
                  (case (hex_val h1, hex_val h2, hex_val h3, hex_val h4) of
                     (Some a, Some b, Some c', Some d) \<Rightarrow>
                       if a = 0 \<and> b = 0 \<and> c' < 8
                       then map_option (\<lambda>(s, r). (char_of (c' * 16 + d) # s, r)) (parse_chars cs2)
                       else None
                   | _ \<Rightarrow> None)
              | _ \<Rightarrow> None)
           else (case unescape x of
                   None \<Rightarrow> None
                 | Some y \<Rightarrow> map_option (\<lambda>(s, r). (y # s, r)) (parse_chars cs1)))
     else if (of_char c :: nat) < 32 then None
     else map_option (\<lambda>(s, r). (c # s, r)) (parse_chars cs))"

fun parse_digits :: "nat \<Rightarrow> string \<Rightarrow> nat \<times> string" where
  "parse_digits acc [] = (acc, [])"
| "parse_digits acc (c # cs) =
    (let n = (of_char c :: nat) in
     if 48 \<le> n \<and> n \<le> 57 then parse_digits (acc * 10 + (n - 48)) cs else (acc, c # cs))"

definition is_digit :: "char \<Rightarrow> bool" where
  "is_digit c = (48 \<le> (of_char c :: nat) \<and> (of_char c :: nat) \<le> 57)"

definition parse_nat :: "string \<Rightarrow> (nat \<times> string) option" where
  "parse_nat s =
    (case s of
       [] \<Rightarrow> None
     | c # cs \<Rightarrow>
        if c = CHR ''0'' then Some (0, cs)
        else if is_digit c then Some (parse_digits 0 (c # cs))
        else None)"

definition parse_int :: "string \<Rightarrow> (int \<times> string) option" where
  "parse_int s =
    (case s of
       [] \<Rightarrow> None
     | c # cs \<Rightarrow>
        if c = CHR ''-'' then map_option (\<lambda>(n, r). (- int n, r)) (parse_nat cs)
        else map_option (\<lambda>(n, r). (int n, r)) (parse_nat s))"

fun strip_prefix :: "string \<Rightarrow> string \<Rightarrow> string option" where
  "strip_prefix [] s = Some s"
| "strip_prefix (p # ps) [] = None"
| "strip_prefix (p # ps) (c # cs) = (if p = c then strip_prefix ps cs else None)"

fun parse_value :: "nat \<Rightarrow> string \<Rightarrow> (int json \<times> string) option"
  and parse_elements :: "nat \<Rightarrow> string \<Rightarrow> (int json list \<times> string) option"
  and parse_members :: "nat \<Rightarrow> string \<Rightarrow> ((string \<times> int json) list \<times> string) option" where
  "parse_value 0 s = None"
| "parse_value (Suc n) [] = None"
| "parse_value (Suc n) (c # cs) =
    (if c = CHR ''n'' then map_option (Pair JNull) (strip_prefix ''ull'' cs)
     else if c = CHR ''t'' then map_option (Pair (JBool True)) (strip_prefix ''rue'' cs)
     else if c = CHR ''f'' then map_option (Pair (JBool False)) (strip_prefix ''alse'' cs)
     else if c = CHR 0x22 then map_option (\<lambda>(s, r). (JStr s, r)) (parse_chars cs)
     else if c = CHR ''['' then
       (case skip_ws cs of
          [] \<Rightarrow> None
        | x # r \<Rightarrow>
           if x = CHR '']'' then Some (JArr [], r)
           else map_option (\<lambda>(vs, r'). (JArr vs, r')) (parse_elements n (x # r)))
     else if c = CHR ''{'' then
       (case skip_ws cs of
          [] \<Rightarrow> None
        | x # r \<Rightarrow>
           if x = CHR ''}'' then Some (JObj [], r)
           else map_option (\<lambda>(ms, r'). (JObj (spread [] ms), r')) (parse_members n (x # r)))
     else map_option (\<lambda>(i, r). (JNum i, r)) (parse_int (c # cs)))"
| "parse_elements 0 s = None"
| "parse_elements (Suc n) s =
    (case parse_value n s of
       None \<Rightarrow> None
     | Some (v, r) \<Rightarrow>
        (case skip_ws r of
           [] \<Rightarrow> None
         | x # r1 \<Rightarrow>
            if x = CHR '']'' then Some ([v], r1)
            else if x = CHR '','' then map_option (\<lambda>(vs, r2). (v # vs, r2)) (parse_elements n (skip_ws r1))
            else None))"
| "parse_members 0 s = None"
| "parse_members (Suc n) s =
    (case s of
       [] \<Rightarrow> None
     | q # cs \<Rightarrow>
        if q \<noteq> CHR 0x22 then None
        else (case parse_chars cs of
           None \<Rightarrow> None
         | Some (k, r) \<Rightarrow>
            (case skip_ws r of
               [] \<Rightarrow> None
             | x # r1 \<Rightarrow>
                if x \<noteq> CHR '':'' then None
                else (case parse_value n (skip_ws r1) of
                   None \<Rightarrow> None
                 | Some (v, r2) \<Rightarrow>
                    (case skip_ws r2 of
                       [] \<Rightarrow> None
                     | y # r3 \<Rightarrow>
                        if y = CHR ''}'' then Some ([(k, v)], r3)
                        else if y = CHR '','' then
                          map_option (\<lambda>(ms, r4). ((k, v) # ms, r4)) (parse_members n (skip_ws r3))
                        else None)))))"

definition parse :: "string \<Rightarrow> int json option" where
  "parse s =
    (case parse_value (Suc (Suc (Suc (length s + length s)))) (skip_ws s) of
       None \<Rightarrow> None
     | Some (v, r) \<Rightarrow> if skip_ws r = [] then Some v else None)"

definition lower_char :: "char \<Rightarrow> char" where
  "lower_char c = (let n = (of_char c :: nat) in if 65 \<le> n \<and> n \<le> 90 then char_of (n + 32) else c)"

text \<open>The reference environment: a browser window with the functions above.\<close>

definition browser :: "int env" where
  "browser = \<lparr> has_window = True, JSON_parse = parse, JSON_stringify = stringify,
               toLowerCase = map lower_char \<rparr>"

text \<open>
  Notions for the proof that the reference environment reads back what it writes: a
  number ends where no digit follows; the reader keeps the members of an object as
  they are written when their keys are distinct (a repeated key overwrites, as in
  \<open>JSON.parse\<close>); \<open>cost\<close> bounds the steps the reader spends on a value.
\<close>

definition ends_number :: "string \<Rightarrow> bool" where
  "ends_number rest = (case rest of [] \<Rightarrow> True | c # cs \<Rightarrow> \<not> is_digit c)"

fun distinct_keys :: "'n json \<Rightarrow> bool" where
  "distinct_keys (JArr xs) = (\<forall>x \<in> set xs. distinct_keys x)"
| "distinct_keys (JObj fs) = (distinct (map fst fs) \<and> (\<forall>kv \<in> set fs. distinct_keys (snd kv)))"
| "distinct_keys JNull = True"
| "distinct_keys (JBool b) = True"
| "distinct_keys (JNum n) = True"
| "distinct_keys (JStr s) = True"

fun cost :: "'n json \<Rightarrow> nat" where
  "cost (JArr xs) = Suc (sum_list (map (\<lambda>x. Suc (cost x)) xs))"
| "cost (JObj fs) = Suc (sum_list (map (\<lambda>kv. Suc (cost (snd kv))) fs))"
| "cost JNull = 1"
| "cost (JBool b) = 1"
| "cost (JNum n) = 1"
| "cost (JStr s) = 1"

section \<open>Notions the statements use\<close>

text \<open>The built-in JSON functions are faithful on a value when writing it gives a
  non-empty text that reads back as the same value.\<close>

definition faithful :: "'n env \<Rightarrow> 'n json \<Rightarrow> bool" where
  "faithful e v = (JSON_stringify e v \<noteq> [] \<and> JSON_parse e (JSON_stringify e v) = Some v)"

text \<open>A run of \<open>downloadService.save\<close> calls, oldest first; an exception ends the run.\<close>

fun downloadService_saves ::
  "'n env \<Rightarrow> storage \<Rightarrow> 'n json list \<Rightarrow> string option \<Rightarrow> error + storage" where
  "downloadService_saves e ls [] userId = Inr ls"
| "downloadService_saves e ls (d # ds) userId =
    (case downloadService_save e ls d userId of
       Inl err \<Rightarrow> Inl err
     | Inr ls' \<Rightarrow> downloadService_saves e ls' ds userId)"

text \<open>The \<open>id\<close> of every element of a collection, in order.\<close>

definition ids_of :: "'n json list \<Rightarrow> (error + 'n json option) list" where
  "ids_of xs = map (\<lambda>t. get_prop t ''id'') xs"

section \<open>Example records\<close>

abbreviation txn_amazon :: "int json" where
  "txn_amazon \<equiv> JObj [(''id'', JStr ''txn_1''), (''description'', JStr ''Payment to Amazon''),
     (''amount'', JNum 4301), (''category'', JStr ''Shopping''),
     (''date'', JStr ''2026-01-01T00:00:00.000Z'')]"

abbreviation txn_netflix :: "int json" where
  "txn_netflix \<equiv> JObj [(''id'', JStr ''txn_2''), (''description'', JStr ''Payment to Netflix''),
     (''amount'', JNum 4331), (''category'', JStr ''Entertainment''),
     (''date'', JStr ''2026-01-02T00:00:00.000Z'')]"

abbreviation cat_food :: "int json" where
  "cat_food \<equiv> JObj [(''name'', JStr ''Food''), (''createdAt'', JStr ''2026-01-01T00:00:00.000Z'')]"

text \<open>A download record as \<open>downloadService.save\<close> receives it, numbered by its id.\<close>

definition download_no :: "nat \<Rightarrow> int json" where
  "download_no n = JObj [(''id'', JStr (''download_'' @ show_nat n)), (''filename'', JStr ''transactions.csv''),
     (''format'', JStr ''csv''), (''transactionCount'', JNum (int n))]"

section \<open>Keys and read-back\<close>

lemma getUserKey_shape:
  "getUserKey e ls b u = b \<or> (\<exists>x. getUserKey e ls b u = b @ ''_'' @ x)"
  by (auto simp: getUserKey_def split: option.splits sum.splits)

lemma transactions_key_not_session:
  "getUserKey e ls STORAGE_KEYS_TRANSACTIONS u \<noteq> STORAGE_KEYS_AUTH_SESSION"
  using getUserKey_shape [of e ls STORAGE_KEYS_TRANSACTIONS u] by auto

lemma categories_key_not_session:
  "getUserKey e ls STORAGE_KEYS_CATEGORIES u \<noteq> STORAGE_KEYS_AUTH_SESSION"
  using getUserKey_shape [of e ls STORAGE_KEYS_CATEGORIES u] by auto

lemma downloads_key_not_session:
  "getUserKey e ls STORAGE_KEYS_DOWNLOADS u \<noteq> STORAGE_KEYS_AUTH_SESSION"
  using getUserKey_shape [of e ls STORAGE_KEYS_DOWNLOADS u] by auto

lemma profile_key_not_session:
  "getUserKey e ls STORAGE_KEYS_USER_PROFILE u \<noteq> STORAGE_KEYS_AUTH_SESSION"
  using getUserKey_shape [of e ls STORAGE_KEYS_USER_PROFILE u] by auto

lemma getUserKey_write_other:
  "k \<noteq> STORAGE_KEYS_AUTH_SESSION \<Longrightarrow> getUserKey e (ls(k \<mapsto> x)) b u = getUserKey e ls b u"
  by (simp add: getUserKey_def)

lemma read_back:
  "faithful e v \<Longrightarrow> parse_or_default e (Some (JSON_stringify e v)) d = Inr v"
  by (simp add: faithful_def parse_or_default_def)

lemma parse_or_default_absent: "parse_or_default e None d = Inr d"
  by (simp add: parse_or_default_def)

section \<open>The reference environment reads back what it writes\<close>

lemma below_16_cases:
  "(m::nat) < 16 \<Longrightarrow> m = 0 \<or> m = 1 \<or> m = 2 \<or> m = 3 \<or> m = 4 \<or> m = 5 \<or> m = 6 \<or> m = 7
     \<or> m = 8 \<or> m = 9 \<or> m = 10 \<or> m = 11 \<or> m = 12 \<or> m = 13 \<or> m = 14 \<or> m = 15"
  by arith

lemma hex_val_digit_char: "m < 16 \<Longrightarrow> hex_val (digit_char m) = Some m"
  using below_16_cases [of m] by (auto simp: hex_val_def digit_char_def)

lemma decimal_digit_char: "m < 10 \<Longrightarrow> (of_char (digit_char m) :: nat) = 48 + m"
  using below_16_cases [of m] by (auto simp: digit_char_def)

lemma hex_val_zero: "hex_val CHR ''0'' = Some 0"
  by (simp add: hex_val_def)

lemma parse_chars_escape:
  "parse_chars (escape_char c @ r) = map_option (\<lambda>(s, r'). (c # s, r')) (parse_chars r)"
proof -
  consider (dq) "c = CHR 0x22" | (bs) "c = CHR 0x5C" | (b) "c = CHR 0x08" | (t) "c = CHR 0x09"
    | (n) "c = CHR 0x0A" | (f) "c = CHR 0x0C" | (r) "c = CHR 0x0D"
    | (ctl) "c \<notin> {CHR 0x22, CHR 0x5C, CHR 0x08, CHR 0x09, CHR 0x0A, CHR 0x0C, CHR 0x0D}" "(of_char c :: nat) < 32"
    | (raw) "c \<notin> {CHR 0x22, CHR 0x5C, CHR 0x08, CHR 0x09, CHR 0x0A, CHR 0x0C, CHR 0x0D}" "\<not> (of_char c :: nat) < 32"
    by blast
  then show ?thesis
  proof cases
    case ctl
    let ?n = "of_char c :: nat"
    have d1: "?n div 16 < 16"
      using ctl(2) by auto
    have d2: "?n mod 16 < 16"
      by auto
    have d3: "?n div 16 < 8"
      using ctl(2) by auto
    have same_char: "char_of (?n div 16 * 16 + ?n mod 16) = c"
      by simp
    show ?thesis
      using ctl d3 same_char
      by (simp add: escape_char_def hex_val_zero hex_val_digit_char [OF d1] hex_val_digit_char [OF d2])
  qed (simp_all add: escape_char_def unescape_def)
qed

lemma parse_chars_quote:
  "parse_chars (concat (map escape_char s) @ CHR 0x22 # rest) = Some (s, rest)"
proof (induction s)
  case Nil
  show ?case by simp
next
  case (Cons c s)
  then show ?case
    by (simp add: parse_chars_escape del: parse_chars.simps)
qed

lemma show_nat_small: "n < 10 \<Longrightarrow> show_nat n = [digit_char n]"
  by (subst show_nat.simps) simp

lemma show_nat_large: "\<not> n < 10 \<Longrightarrow> show_nat n = show_nat (n div 10) @ [digit_char (n mod 10)]"
  by (subst show_nat.simps) simp

lemma parse_digits_digit:
  "d < 10 \<Longrightarrow> parse_digits acc (digit_char d # rest) = parse_digits (acc * 10 + d) rest"
  by (simp add: decimal_digit_char Let_def)

lemma parse_digits_show_nat:
  "parse_digits acc (show_nat n @ rest) = parse_digits (acc * 10 ^ length (show_nat n) + n) rest"
proof (induction n arbitrary: acc rest rule: show_nat.induct)
  case (1 n)
  show ?case
  proof (cases "n < 10")
    case True
    then show ?thesis
      by (simp add: show_nat_small parse_digits_digit del: parse_digits.simps)
  next
    case False
    have "parse_digits acc (show_nat n @ rest)
        = parse_digits acc (show_nat (n div 10) @ digit_char (n mod 10) # rest)"
      using False by (simp add: show_nat_large)
    also have "\<dots> = parse_digits (acc * 10 ^ length (show_nat (n div 10)) + n div 10)
        (digit_char (n mod 10) # rest)"
      using False by (rule "1.IH")
    also have "\<dots> = parse_digits ((acc * 10 ^ length (show_nat (n div 10)) + n div 10) * 10 + n mod 10) rest"
      by (rule parse_digits_digit) simp
    also have "(acc * 10 ^ length (show_nat (n div 10)) + n div 10) * 10 + n mod 10
        = acc * 10 ^ length (show_nat n) + n"
      using False by (simp add: show_nat_large algebra_simps)
    finally show ?thesis .
  qed
qed

lemma parse_digits_stop: "ends_number rest \<Longrightarrow> parse_digits acc rest = (acc, rest)"
  by (cases rest) (auto simp: ends_number_def is_digit_def Let_def)

lemma show_nat_head: "\<exists>d cs. show_nat n = digit_char d # cs \<and> d < 10 \<and> (0 < n \<longrightarrow> 0 < d)"
proof (induction n rule: show_nat.induct)
  case (1 n)
  show ?case
  proof (cases "n < 10")
    case True
    then have "show_nat n = digit_char n # [] \<and> n < 10 \<and> (0 < n \<longrightarrow> 0 < n)"
      by (simp add: show_nat_small)
    then show ?thesis
      by blast
  next
    case False
    from "1.IH" [OF False] obtain d cs
      where h: "show_nat (n div 10) = digit_char d # cs \<and> d < 10 \<and> (0 < n div 10 \<longrightarrow> 0 < d)"
      by auto
    have "0 < n div 10"
      using False by simp
    with h False
    have "show_nat n = digit_char d # (cs @ [digit_char (n mod 10)]) \<and> d < 10 \<and> (0 < n \<longrightarrow> 0 < d)"
      by (simp add: show_nat_large)
    then show ?thesis
      by blast
  qed
qed

lemma digit_char_is_digit: "d < 10 \<Longrightarrow> is_digit (digit_char d)"
  by (simp add: is_digit_def decimal_digit_char)

lemma digit_char_not_zero: "0 < d \<Longrightarrow> d < 10 \<Longrightarrow> digit_char d \<noteq> CHR ''0''"
  using decimal_digit_char [of d] by auto

lemma digit_char_not_minus: "d < 10 \<Longrightarrow> digit_char d \<noteq> CHR ''-''"
  using decimal_digit_char [of d] by auto

lemma parse_nat_show_nat:
  assumes "ends_number rest"
  shows "parse_nat (show_nat n @ rest) = Some (n, rest)"
proof (cases "n = 0")
  case True
  then show ?thesis
    by (simp add: show_nat_small digit_char_def parse_nat_def)
next
  case False
  obtain d cs where s: "show_nat n = digit_char d # cs" and d: "d < 10" "0 < d"
    using show_nat_head [of n] False by auto
  have "parse_digits 0 (show_nat n @ rest) = (n, rest)"
    using assms by (simp add: parse_digits_show_nat parse_digits_stop)
  then have "parse_digits 0 (digit_char d # cs @ rest) = (n, rest)"
    by (simp add: s)
  then show ?thesis
    using d by (simp add: s parse_nat_def digit_char_is_digit digit_char_not_zero del: parse_digits.simps)
qed

lemma parse_int_show_int:
  assumes "ends_number rest"
  shows "parse_int (show_int i @ rest) = Some (i, rest)"
proof (cases "i < 0")
  case True
  then show ?thesis
    using assms by (simp add: show_int_def parse_int_def parse_nat_show_nat)
next
  case False
  obtain d cs where s: "show_nat (nat i) = digit_char d # cs" and d: "d < 10"
    using show_nat_head [of "nat i"] by auto
  have "parse_nat (digit_char d # cs @ rest) = Some (nat i, rest)"
    using parse_nat_show_nat [OF assms, of "nat i"] by (simp add: s)
  then show ?thesis
    using False d by (simp add: show_int_def parse_int_def s digit_char_not_minus)
qed

lemma show_int_head:
  "\<exists>c cs. show_int i = c # cs \<and> (c = CHR ''-'' \<or> is_digit c)"
  using show_nat_head [of "nat i"] by (auto simp: show_int_def digit_char_is_digit)

lemma update_fresh: "k \<notin> fst ` set a \<Longrightarrow> AList.update k v a = a @ [(k, v)]"
  by (induction a) auto

lemma fold_update_distinct:
  "distinct (map fst (a @ b)) \<Longrightarrow> fold (\<lambda>kv acc. AList.update (fst kv) (snd kv) acc) b a = a @ b"
proof (induction b arbitrary: a)
  case Nil
  then show ?case by simp
next
  case (Cons kv b)
  then have fresh: "fst kv \<notin> fst ` set a" and rest: "distinct (map fst ((a @ [kv]) @ b))"
    by auto
  show ?case
    using Cons.IH [OF rest] fresh by (simp add: update_fresh)
qed

lemma spread_distinct: "distinct (map fst ms) \<Longrightarrow> spread [] ms = ms"
  using fold_update_distinct [of "[]" ms] by (simp add: spread_def)

lemma is_digit_not_special:
  "is_digit c \<Longrightarrow> \<not> is_ws c \<and> c \<noteq> CHR '']'' \<and> c \<noteq> CHR ''}'' \<and> c \<noteq> CHR ''n'' \<and> c \<noteq> CHR ''t''
     \<and> c \<noteq> CHR ''f'' \<and> c \<noteq> CHR 0x22 \<and> c \<noteq> CHR ''['' \<and> c \<noteq> CHR ''{''"
  by (auto simp: is_digit_def is_ws_def)

lemma stringify_head:
  "\<exists>c cs. stringify v = c # cs \<and> \<not> is_ws c \<and> c \<noteq> CHR '']'' \<and> c \<noteq> CHR ''}''"
proof (cases v)
  case (JNum i)
  obtain c cs where "show_int i = c # cs" and "c = CHR ''-'' \<or> is_digit c"
    using show_int_head by blast
  then have "stringify v = c # cs \<and> \<not> is_ws c \<and> c \<noteq> CHR '']'' \<and> c \<noteq> CHR ''}''"
    using JNum is_digit_not_special [of c] by (auto simp: is_ws_def)
  then show ?thesis
    by blast
qed (simp_all add: is_ws_def quote_def)

lemma skip_ws_stringify: "skip_ws (stringify v @ r) = stringify v @ r"
  using stringify_head [of v] by auto

lemma stringify_not_close:
  "\<exists>c cs. stringify v @ r = c # cs \<and> c \<noteq> CHR '']'' \<and> c \<noteq> CHR ''}''"
  using stringify_head [of v] by auto

lemma join_commas_Cons:
  "join_commas (a # as) = a @ (if as = [] then [] else CHR '','' # join_commas as)"
  by (cases as) simp_all

lemma parse_value_num:
  assumes "ends_number rest"
  shows "parse_value (Suc n) (show_int i @ rest) = Some (JNum i, rest)"
proof -
  obtain c cs where s: "show_int i = c # cs" and c: "c = CHR ''-'' \<or> is_digit c"
    using show_int_head by blast
  have "parse_int (c # cs @ rest) = Some (i, rest)"
    using parse_int_show_int [OF assms, of i] by (simp add: s)
  moreover have "c \<noteq> CHR ''n'' \<and> c \<noteq> CHR ''t'' \<and> c \<noteq> CHR ''f'' \<and> c \<noteq> CHR 0x22 \<and> c \<noteq> CHR ''['' \<and> c \<noteq> CHR ''{''"
    using c is_digit_not_special [of c] by auto
  ultimately show ?thesis
    by (simp add: s)
qed

lemma ends_number_simps:
  "ends_number (CHR '']'' # r)" "ends_number (CHR ''}'' # r)" "ends_number (CHR '','' # r)" "ends_number []"
  by (simp_all add: ends_number_def is_digit_def)

lemma parse_elements_join:
  assumes "\<And>x n rest. x \<in> set xs \<Longrightarrow> cost x \<le> n \<Longrightarrow> ends_number rest \<Longrightarrow>
             parse_value n (stringify x @ rest) = Some (x, rest)"
    and "xs \<noteq> []"
    and "sum_list (map (\<lambda>x. Suc (cost x)) xs) \<le> n"
  shows "parse_elements n (join_commas (map stringify xs) @ CHR '']'' # rest) = Some (xs, rest)"
  using assms
proof (induction xs arbitrary: n)
  case Nil
  then show ?case by simp
next
  case (Cons x xs)
  from Cons.prems(3) obtain n' where n: "n = Suc n'" and here: "cost x \<le> n'"
    and later: "sum_list (map (\<lambda>x. Suc (cost x)) xs) \<le> n'"
    by (cases n) auto
  show ?case
  proof (cases "xs = []")
    case True
    have "parse_value n' (stringify x @ CHR '']'' # rest) = Some (x, CHR '']'' # rest)"
      using here by (intro Cons.prems(1)) (simp_all add: ends_number_simps)
    then show ?thesis
      using True by (simp add: n is_ws_def)
  next
    case False
    let ?tail = "join_commas (map stringify xs) @ CHR '']'' # rest"
    have first: "parse_value n' (stringify x @ CHR '','' # ?tail) = Some (x, CHR '','' # ?tail)"
      using here by (intro Cons.prems(1)) (simp_all add: ends_number_simps)
    obtain y ys where xs: "xs = y # ys"
      using False by (cases xs) auto
    have skip: "skip_ws ?tail = ?tail"
      using skip_ws_stringify [of y] by (simp add: xs join_commas_Cons)
    have "parse_elements n' ?tail = Some (xs, rest)"
      using False later by (intro Cons.IH Cons.prems(1)) auto
    with first skip show ?thesis
      using False by (simp add: n join_commas_Cons is_ws_def)
  qed
qed

lemma parse_members_join:
  assumes "\<And>kv n rest. kv \<in> set fs \<Longrightarrow> cost (snd kv) \<le> n \<Longrightarrow> ends_number rest \<Longrightarrow>
             parse_value n (stringify (snd kv) @ rest) = Some (snd kv, rest)"
    and "fs \<noteq> []"
    and "sum_list (map (\<lambda>kv. Suc (cost (snd kv))) fs) \<le> n"
  shows "parse_members n
      (join_commas (map (\<lambda>kv. quote (fst kv) @ '':'' @ stringify (snd kv)) fs) @ CHR ''}'' # rest)
     = Some (fs, rest)"
  using assms
proof (induction fs arbitrary: n)
  case Nil
  then show ?case by simp
next
  case (Cons kv fs)
  from Cons.prems(3) obtain n' where n: "n = Suc n'" and here: "cost (snd kv) \<le> n'"
    and later: "sum_list (map (\<lambda>kv. Suc (cost (snd kv))) fs) \<le> n'"
    by (cases n) auto
  obtain k v where kv: "kv = (k, v)"
    by (cases kv)
  show ?case
  proof (cases "fs = []")
    case True
    have "parse_value n' (stringify v @ CHR ''}'' # rest) = Some (v, CHR ''}'' # rest)"
      using here Cons.prems(1) [of kv n' "CHR ''}'' # rest"] by (simp add: kv ends_number_simps)
    then show ?thesis
      using True
      by (simp add: n kv quote_def parse_chars_quote is_ws_def skip_ws_stringify del: parse_chars.simps)
  next
    case False
    let ?tail = "join_commas (map (\<lambda>kv. quote (fst kv) @ '':'' @ stringify (snd kv)) fs) @ CHR ''}'' # rest"
    have first: "parse_value n' (stringify v @ CHR '','' # ?tail) = Some (v, CHR '','' # ?tail)"
      using here Cons.prems(1) [of kv n' "CHR '','' # ?tail"] by (simp add: kv ends_number_simps)
    obtain f fs' where fs: "fs = f # fs'"
      using False by (cases fs) auto
    have skip: "skip_ws ?tail = ?tail"
      by (simp add: fs join_commas_Cons quote_def is_ws_def)
    have "parse_members n' ?tail = Some (fs, rest)"
      using False later by (intro Cons.IH Cons.prems(1)) auto
    with first skip show ?thesis
      using False
      by (simp add: n kv join_commas_Cons quote_def parse_chars_quote is_ws_def skip_ws_stringify
          del: parse_chars.simps)
  qed
qed

lemma parse_value_stringify:
  "cost v \<le> n \<Longrightarrow> ends_number rest \<Longrightarrow> distinct_keys v \<Longrightarrow>
   parse_value n (stringify v @ rest) = Some (v, rest)"
proof (induction v arbitrary: n rest)
  case JNull
  then show ?case by (cases n) simp_all
next
  case (JBool b)
  then show ?case by (cases n) simp_all
next
  case (JNum i)
  then show ?case by (cases n) (simp_all add: parse_value_num)
next
  case (JStr s)
  then show ?case
    by (cases n) (simp_all add: quote_def parse_chars_quote del: parse_chars.simps)
next
  case (JArr xs)
  from JArr.prems(1) obtain n' where n: "n = Suc n'"
    and fuel: "sum_list (map (\<lambda>x. Suc (cost x)) xs) \<le> n'"
    by (cases n) auto
  show ?case
  proof (cases "xs = []")
    case True
    then show ?thesis by (simp add: n is_ws_def)
  next
    case False
    have each: "\<And>x m r. x \<in> set xs \<Longrightarrow> cost x \<le> m \<Longrightarrow> ends_number r \<Longrightarrow>
        parse_value m (stringify x @ r) = Some (x, r)"
      using JArr.IH JArr.prems(3) by simp
    have elems: "parse_elements n' (join_commas (map stringify xs) @ CHR '']'' # rest) = Some (xs, rest)"
      using each False fuel by (rule parse_elements_join)
    obtain y ys where xs: "xs = y # ys"
      using False by (cases xs) auto
    obtain c cs where hd: "join_commas (map stringify xs) @ CHR '']'' # rest = c # cs"
      and c: "\<not> is_ws c" "c \<noteq> CHR '']''"
      using stringify_head [of y] by (auto simp: xs join_commas_Cons)
    show ?thesis
      using elems c by (simp add: n hd)
  qed
next
  case (JObj fs)
  from JObj.prems(1) obtain n' where n: "n = Suc n'"
    and fuel: "sum_list (map (\<lambda>kv. Suc (cost (snd kv))) fs) \<le> n'"
    by (cases n) auto
  show ?case
  proof (cases "fs = []")
    case True
    then show ?thesis by (simp add: n is_ws_def)
  next
    case False
    have each: "\<And>kv m r. kv \<in> set fs \<Longrightarrow> cost (snd kv) \<le> m \<Longrightarrow> ends_number r \<Longrightarrow>
        parse_value m (stringify (snd kv) @ r) = Some (snd kv, r)"
    proof -
      fix kv m r
      assume kv: "kv \<in> set fs" and m: "cost (snd kv) \<le> m" and r: "ends_number r"
      have "snd kv \<in> Basic_BNFs.snds kv"
        by (cases kv) simp
      moreover have "distinct_keys (snd kv)"
        using JObj.prems(3) kv by simp
      ultimately show "parse_value m (stringify (snd kv) @ r) = Some (snd kv, r)"
        using JObj.IH kv m r by blast
    qed
    let ?txt = "join_commas (map (\<lambda>kv. quote (fst kv) @ '':'' @ stringify (snd kv)) fs) @ CHR ''}'' # rest"
    have members: "parse_members n' ?txt = Some (fs, rest)"
      using each False fuel by (rule parse_members_join)
    obtain f fs' where fs: "fs = f # fs'"
      using False by (cases fs) auto
    obtain cs where hd: "?txt = CHR 0x22 # cs"
      by (simp add: fs join_commas_Cons quote_def)
    have same: "spread [] fs = fs"
      using JObj.prems(3) by (simp add: spread_distinct)
    have whole: "stringify (JObj fs) @ rest = CHR ''{'' # ?txt"
      by simp
    have "parse_value (Suc n') (CHR ''{'' # ?txt) = Some (JObj fs, rest)"
      unfolding hd using members [unfolded hd] same by (simp add: is_ws_def)
    then show ?thesis
      by (simp only: n whole)
  qed
qed

lemma length_join_commas:
  "sum_list (map (\<lambda>s. Suc (length s)) ss) \<le> Suc (length (join_commas ss))"
  by (induction ss rule: join_commas.induct) simp_all

lemma cost_le_length: "cost v \<le> 2 * length (stringify v)"
proof (induction v)
  case (JNum i)
  obtain c cs where "show_int i = c # cs"
    using show_int_head by blast
  then show ?case by simp
next
  case (JArr xs)
  have "sum_list (map (\<lambda>x. Suc (cost x)) xs) \<le> sum_list (map (\<lambda>x. 2 * Suc (length (stringify x))) xs)"
    using JArr.IH by (intro sum_list_mono) (simp add: le_SucI)
  also have "\<dots> = 2 * sum_list (map (\<lambda>s. Suc (length s)) (map stringify xs))"
    by (simp only: map_map comp_def sum_list_const_mult)
  also have "\<dots> \<le> 2 * Suc (length (join_commas (map stringify xs)))"
    using length_join_commas [of "map stringify xs"] by simp
  finally show ?case by simp
next
  case (JObj fs)
  let ?member = "\<lambda>kv. quote (fst kv) @ '':'' @ stringify (snd kv)"
  have each: "Suc (cost (snd kv)) \<le> 2 * Suc (length (?member kv))" if "kv \<in> set fs" for kv
  proof -
    have "snd kv \<in> Basic_BNFs.snds kv"
      by (cases kv) simp
    with that have "cost (snd kv) \<le> 2 * length (stringify (snd kv))"
      by (rule JObj.IH)
    then show ?thesis by simp
  qed
  have "sum_list (map (\<lambda>kv. Suc (cost (snd kv))) fs) \<le> sum_list (map (\<lambda>kv. 2 * Suc (length (?member kv))) fs)"
    using each by (intro sum_list_mono) blast
  also have "\<dots> = 2 * sum_list (map (\<lambda>s. Suc (length s)) (map ?member fs))"
    by (simp only: map_map comp_def sum_list_const_mult)
  also have "\<dots> \<le> 2 * Suc (length (join_commas (map ?member fs)))"
    using length_join_commas [of "map ?member fs"] by simp
  finally show ?case by simp
qed (simp_all add: quote_def)

lemma parse_stringify: "distinct_keys v \<Longrightarrow> parse (stringify v) = Some v"
proof -
  assume keys: "distinct_keys v"
  have skip: "skip_ws (stringify v) = stringify v"
    using skip_ws_stringify [of v "[]"] by simp
  have "cost v \<le> Suc (Suc (Suc (length (stringify v) + length (stringify v))))"
    using cost_le_length [of v] by simp
  then have "parse_value (Suc (Suc (Suc (length (stringify v) + length (stringify v))))) (stringify v @ [])
      = Some (v, [])"
    using keys by (intro parse_value_stringify) (simp_all add: ends_number_simps)
  then show ?thesis
    by (simp add: parse_def skip)
qed

lemma browser_faithful: "distinct_keys v \<Longrightarrow> faithful browser v"
  using stringify_head [of v] by (auto simp: faithful_def browser_def parse_stringify)

lemma stringify_nonempty: "stringify v \<noteq> []"
  using stringify_head [of v] by auto

lemma browser_reads:
  "distinct_keys v \<Longrightarrow> parse_or_default browser (Some (stringify v)) d = Inr v"
  using stringify_nonempty [of v] by (simp add: parse_or_default_def browser_def parse_stringify)

lemma browser_window: "has_window browser"
  by (simp add: browser_def)

lemma parse_oops: "parse ''{oops'' = None"
  by (simp add: parse_def is_ws_def)

section \<open>Reads of missing data\<close>

text \<open>
  Claim C8. Reads never fail on missing data or missing storage: for every entity kind, a
  read against an absent key returns the empty collection (transactions, categories,
  downloads) or \<open>null\<close> (profile, session, PIN), and without a browser window every read
  returns that same result; neither case raises.
\<close>

theorem reads_of_missing_data:
  "(\<not> has_window e \<or> ls (getUserKey e ls STORAGE_KEYS_TRANSACTIONS u) = None
      \<longrightarrow> transactionService_getAll e ls u = Inr (JArr [])
        \<and> transactionService_getByCategory e ls c u = Inr [])
   \<and> (\<not> has_window e \<or> ls (getUserKey e ls STORAGE_KEYS_CATEGORIES u) = None
      \<longrightarrow> categoryService_getAll e ls u = Inr (JArr []))
   \<and> (\<not> has_window e \<or> ls (getUserKey e ls STORAGE_KEYS_DOWNLOADS u) = None
      \<longrightarrow> downloadService_getAll e ls u = Inr (JArr []))
   \<and> (\<not> has_window e \<or> ls (getUserKey e ls STORAGE_KEYS_USER_PROFILE u) = None
      \<longrightarrow> userService_getProfile e ls u = Inr JNull)
   \<and> (\<not> has_window e \<or> ls STORAGE_KEYS_AUTH_SESSION = None
      \<longrightarrow> authService_getSession e ls = Inr JNull)
   \<and> (\<not> has_window e
        \<or> ls (if truthy u then STORAGE_KEYS_PIN @ ''_'' @ the u else STORAGE_KEYS_PIN) = None
      \<longrightarrow> pinService_get e ls u = None \<and> \<not> pinService_exists e ls u \<and> \<not> pinService_verify e ls pin u)"
  by (auto simp: transactionService_getAll_def transactionService_getByCategory_def
      categoryService_getAll_def downloadService_getAll_def userService_getProfile_def
      authService_getSession_def pinService_get_def pinService_exists_def pinService_verify_def
      parse_or_default_def)

theorem reads_of_missing_data_witness:
  "transactionService_getAll browser Map.empty None = Inr (JArr [])
   \<and> transactionService_getByCategory browser Map.empty ''Shopping'' None = Inr []
   \<and> categoryService_getAll browser Map.empty (Some ''911234567890'') = Inr (JArr [])
   \<and> downloadService_getAll browser Map.empty None = Inr (JArr [])
   \<and> userService_getProfile browser Map.empty None = Inr JNull
   \<and> authService_getSession browser Map.empty = Inr JNull
   \<and> pinService_get browser Map.empty None = None
   \<and> transactionService_getAll (browser\<lparr>has_window := False\<rparr>)
        (Map.empty(STORAGE_KEYS_TRANSACTIONS \<mapsto> ''[1]'')) None = Inr (JArr [])"
  using reads_of_missing_data [of browser Map.empty None "''Shopping''" "''0000''"]
    reads_of_missing_data [of browser Map.empty "Some ''911234567890''" "''Shopping''" "''0000''"]
    reads_of_missing_data [of "browser\<lparr>has_window := False\<rparr>"
       "Map.empty(STORAGE_KEYS_TRANSACTIONS \<mapsto> ''[1]'')" None "''Shopping''" "''0000''"]
  by (simp add: browser_def)

section \<open>Malformed stored text\<close>

text \<open>
  Claim C2, as amended. \<open>getAll\<close> of transactions, categories and downloads,
  \<open>getProfile\<close> and \<open>getSession\<close> fail with the parse failure when the text under their
  key is non-empty and \<open>JSON.parse\<close> rejects it; an empty text is treated as absent. A
  session text that \<open>JSON.parse\<close> rejects while a key is derived is caught inside
  \<open>getUserKey\<close>, which then returns the bare base key.
\<close>

theorem malformed_json:
  "(has_window e \<and> ls (getUserKey e ls STORAGE_KEYS_TRANSACTIONS u) = Some s \<and> s \<noteq> []
      \<and> JSON_parse e s = None \<longrightarrow> transactionService_getAll e ls u = Inl SyntaxError)
   \<and> (has_window e \<and> ls (getUserKey e ls STORAGE_KEYS_CATEGORIES u) = Some s \<and> s \<noteq> []
      \<and> JSON_parse e s = None \<longrightarrow> categoryService_getAll e ls u = Inl SyntaxError)
   \<and> (has_window e \<and> ls (getUserKey e ls STORAGE_KEYS_DOWNLOADS u) = Some s \<and> s \<noteq> []
      \<and> JSON_parse e s = None \<longrightarrow> downloadService_getAll e ls u = Inl SyntaxError)
   \<and> (has_window e \<and> ls (getUserKey e ls STORAGE_KEYS_USER_PROFILE u) = Some s \<and> s \<noteq> []
      \<and> JSON_parse e s = None \<longrightarrow> userService_getProfile e ls u = Inl SyntaxError)
   \<and> (has_window e \<and> ls STORAGE_KEYS_AUTH_SESSION = Some s \<and> s \<noteq> []
      \<and> JSON_parse e s = None \<longrightarrow> authService_getSession e ls = Inl SyntaxError)
   \<and> (has_window e \<and> ls (getUserKey e ls STORAGE_KEYS_TRANSACTIONS u) = Some []
      \<longrightarrow> transactionService_getAll e ls u = Inr (JArr []))
   \<and> (\<not> truthy u \<and> ls STORAGE_KEYS_AUTH_SESSION = Some s \<and> JSON_parse e s = None
      \<longrightarrow> getUserKey e ls b u = b)"
  by (simp add: transactionService_getAll_def categoryService_getAll_def
      downloadService_getAll_def userService_getProfile_def authService_getSession_def
      parse_or_default_def getUserKey_def)

theorem malformed_json_witness:
  "transactionService_getAll browser (Map.empty(STORAGE_KEYS_TRANSACTIONS \<mapsto> ''{oops'')) None
      = Inl SyntaxError
   \<and> categoryService_getAll browser (Map.empty(STORAGE_KEYS_CATEGORIES \<mapsto> ''{oops'')) None
      = Inl SyntaxError
   \<and> downloadService_getAll browser (Map.empty(STORAGE_KEYS_DOWNLOADS \<mapsto> ''{oops'')) None
      = Inl SyntaxError
   \<and> userService_getProfile browser (Map.empty(''transactai_user_profile_42'' \<mapsto> ''{oops'')) (Some ''42'')
      = Inl SyntaxError
   \<and> authService_getSession browser (Map.empty(STORAGE_KEYS_AUTH_SESSION \<mapsto> ''{oops''))
      = Inl SyntaxError
   \<and> transactionService_getAll browser (Map.empty(STORAGE_KEYS_TRANSACTIONS \<mapsto> [])) None
      = Inr (JArr [])
   \<and> getUserKey browser (Map.empty(STORAGE_KEYS_AUTH_SESSION \<mapsto> ''{oops'')) STORAGE_KEYS_CATEGORIES None
      = STORAGE_KEYS_CATEGORIES"
proof -
  have bad: "JSON_parse browser ''{oops'' = None"
    by (simp add: browser_def parse_oops)
  have bare: "getUserKey browser (Map.empty(k \<mapsto> v)) b None = b" if "k \<noteq> STORAGE_KEYS_AUTH_SESSION" for k v b
    using that by (simp add: getUserKey_def)
  have k2: "getUserKey browser (Map.empty(''transactai_user_profile_42'' \<mapsto> ''{oops''))
      STORAGE_KEYS_USER_PROFILE (Some ''42'') = ''transactai_user_profile_42''"
    by (simp add: getUserKey_def)
  show ?thesis
    using malformed_json [where e = browser and ls = "Map.empty(STORAGE_KEYS_TRANSACTIONS \<mapsto> ''{oops'')"
        and u = None and s = "''{oops''"]
      malformed_json [where e = browser and ls = "Map.empty(STORAGE_KEYS_CATEGORIES \<mapsto> ''{oops'')"
        and u = None and s = "''{oops''"]
      malformed_json [where e = browser and ls = "Map.empty(STORAGE_KEYS_DOWNLOADS \<mapsto> ''{oops'')"
        and u = None and s = "''{oops''"]
      malformed_json [where e = browser and ls = "Map.empty(''transactai_user_profile_42'' \<mapsto> ''{oops'')"
        and u = "Some ''42''" and s = "''{oops''"]
      malformed_json [where e = browser and ls = "Map.empty(STORAGE_KEYS_AUTH_SESSION \<mapsto> ''{oops'')"
        and u = None and s = "''{oops''" and b = STORAGE_KEYS_CATEGORIES]
      malformed_json [where e = browser and ls = "Map.empty(STORAGE_KEYS_TRANSACTIONS \<mapsto> [])"
        and u = None]
      bad browser_window k2
    by (simp add: bare)
qed

text \<open>
  Claim C2 as stated fails for the session text read during key derivation: with the
  malformed session text \<open>{oops\<close> stored, \<open>transactionService.getAll\<close> raises nothing and
  returns the empty collection read under the bare key.
\<close>

theorem session_parse_failure_is_caught:
  "JSON_parse browser ''{oops'' = None
   \<and> getUserKey browser (Map.empty(STORAGE_KEYS_AUTH_SESSION \<mapsto> ''{oops'')) STORAGE_KEYS_TRANSACTIONS None
      = ''transactai_transactions''
   \<and> transactionService_getAll browser (Map.empty(STORAGE_KEYS_AUTH_SESSION \<mapsto> ''{oops'')) None
      = Inr (JArr [])"
    by (simp add: browser_def parse_oops getUserKey_def transactionService_getAll_def
      parse_or_default_def)

section \<open>Saving and reading back\<close>

text \<open>What was written under the key of a collection is what the next read returns,
  when the JSON functions are faithful on it.\<close>

lemma transactions_read_after_write:
  "has_window e \<Longrightarrow> faithful e v \<Longrightarrow>
   transactionService_getAll e (ls(getUserKey e ls STORAGE_KEYS_TRANSACTIONS u \<mapsto> JSON_stringify e v)) u = Inr v"
  by (simp add: transactionService_getAll_def getUserKey_write_other transactions_key_not_session read_back)

lemma categories_read_after_write:
  "has_window e \<Longrightarrow> faithful e v \<Longrightarrow>
   categoryService_getAll e (ls(getUserKey e ls STORAGE_KEYS_CATEGORIES u \<mapsto> JSON_stringify e v)) u = Inr v"
  by (simp add: categoryService_getAll_def getUserKey_write_other categories_key_not_session read_back)

lemma downloads_read_after_write:
  "has_window e \<Longrightarrow> faithful e v \<Longrightarrow>
   downloadService_getAll e (ls(getUserKey e ls STORAGE_KEYS_DOWNLOADS u \<mapsto> JSON_stringify e v)) u = Inr v"
  by (simp add: downloadService_getAll_def getUserKey_write_other downloads_key_not_session read_back)

lemma profile_read_after_write:
  "has_window e \<Longrightarrow> faithful e v \<Longrightarrow>
   userService_getProfile e (ls(getUserKey e ls STORAGE_KEYS_USER_PROFILE u \<mapsto> JSON_stringify e v)) u = Inr v"
  by (simp add: userService_getProfile_def getUserKey_write_other profile_key_not_session read_back)

lemma transactions_absent:
  "has_window e \<Longrightarrow> ls (getUserKey e ls STORAGE_KEYS_TRANSACTIONS u) = None \<Longrightarrow>
   transactionService_getAll e ls u = Inr (JArr [])"
  by (simp add: transactionService_getAll_def parse_or_default_def)

lemma categories_absent:
  "has_window e \<Longrightarrow> ls (getUserKey e ls STORAGE_KEYS_CATEGORIES u) = None \<Longrightarrow>
   categoryService_getAll e ls u = Inr (JArr [])"
  by (simp add: categoryService_getAll_def parse_or_default_def)

lemma downloads_absent:
  "has_window e \<Longrightarrow> ls (getUserKey e ls STORAGE_KEYS_DOWNLOADS u) = None \<Longrightarrow>
   downloadService_getAll e ls u = Inr (JArr [])"
  by (simp add: downloadService_getAll_def parse_or_default_def)

text \<open>
  Claim C3, as amended. In a browser window, with nothing stored under the key:
  \<open>transactionService.save\<close> and \<open>downloadService.save\<close> followed by \<open>getAll\<close> for
  the same user yield the one-element collection of the saved value, and
  \<open>categoryService.add\<close> followed by \<open>getAll\<close> yields the one category with the name and
  the time of the call. \<open>saveProfile\<close> followed by \<open>getProfile\<close> for the same explicit
  user identifier yields the saved profile with \<open>updatedAt\<close> set to the time of the save.
  Each holds when the JSON functions are faithful on the value written.
\<close>

theorem save_then_read:
  assumes "has_window e"
  shows "(ls (getUserKey e ls STORAGE_KEYS_TRANSACTIONS u) = None \<and> faithful e (JArr [v])
      \<longrightarrow> (\<exists>ls'. transactionService_save e ls v u = Inr ls'
             \<and> transactionService_getAll e ls' u = Inr (JArr [v])))
   \<and> (ls (getUserKey e ls STORAGE_KEYS_DOWNLOADS u) = None \<and> faithful e (JArr [v])
      \<longrightarrow> (\<exists>ls'. downloadService_save e ls v u = Inr ls'
             \<and> downloadService_getAll e ls' u = Inr (JArr [v])))
   \<and> (ls (getUserKey e ls STORAGE_KEYS_CATEGORIES u) = None
        \<and> faithful e (JArr [JObj [(''name'', JStr n), (''createdAt'', JStr now)]])
      \<longrightarrow> (\<exists>ls'. categoryService_add e ls now n u = Inr ls'
             \<and> categoryService_getAll e ls' u
                = Inr (JArr [JObj [(''name'', JStr n), (''createdAt'', JStr now)]])))
   \<and> (uid \<noteq> [] \<and> faithful e (JObj (spread profile [(''updatedAt'', JStr now)]))
      \<longrightarrow> (\<exists>ls'. userService_saveProfile e ls now profile (Some uid) = Inr ls'
             \<and> userService_getProfile e ls' (Some uid)
                = Inr (JObj (spread profile [(''updatedAt'', JStr now)]))))"
proof -
  have txn: "ls (getUserKey e ls STORAGE_KEYS_TRANSACTIONS u) = None \<and> faithful e (JArr [v])
      \<longrightarrow> (\<exists>ls'. transactionService_save e ls v u = Inr ls'
             \<and> transactionService_getAll e ls' u = Inr (JArr [v]))"
    using assms
    by (simp add: transactionService_save_def transactions_absent transactions_read_after_write)
  have dl: "ls (getUserKey e ls STORAGE_KEYS_DOWNLOADS u) = None \<and> faithful e (JArr [v])
      \<longrightarrow> (\<exists>ls'. downloadService_save e ls v u = Inr ls'
             \<and> downloadService_getAll e ls' u = Inr (JArr [v]))"
    using assms
    by (simp add: downloadService_save_def downloads_absent downloads_read_after_write)
  have cat: "ls (getUserKey e ls STORAGE_KEYS_CATEGORIES u) = None
        \<and> faithful e (JArr [JObj [(''name'', JStr n), (''createdAt'', JStr now)]])
      \<longrightarrow> (\<exists>ls'. categoryService_add e ls now n u = Inr ls'
             \<and> categoryService_getAll e ls' u
                = Inr (JArr [JObj [(''name'', JStr n), (''createdAt'', JStr now)]]))"
    using assms
    by (simp add: categoryService_add_def categories_absent categories_read_after_write)
  have prof: "uid \<noteq> [] \<and> faithful e (JObj (spread profile [(''updatedAt'', JStr now)]))
      \<longrightarrow> (\<exists>ls'. userService_saveProfile e ls now profile (Some uid) = Inr ls'
             \<and> userService_getProfile e ls' (Some uid)
                = Inr (JObj (spread profile [(''updatedAt'', JStr now)])))"
    using assms
    by (simp add: userService_saveProfile_def profile_read_after_write)
  from txn dl cat prof show ?thesis
    by blast
qed

theorem save_then_read_witness:
  "(\<exists>ls'. transactionService_save browser Map.empty txn_amazon None = Inr ls'
       \<and> transactionService_getAll browser ls' None = Inr (JArr [txn_amazon]))
   \<and> (\<exists>ls'. downloadService_save browser Map.empty (download_no 1) (Some ''911234567890'') = Inr ls'
       \<and> downloadService_getAll browser ls' (Some ''911234567890'') = Inr (JArr [download_no 1]))
   \<and> (\<exists>ls'. categoryService_add browser Map.empty ''2026-01-01T00:00:00.000Z'' ''Food'' None = Inr ls'
       \<and> categoryService_getAll browser ls' None = Inr (JArr [cat_food]))
   \<and> (\<exists>ls'. userService_saveProfile browser Map.empty ''2026-01-02T00:00:00.000Z''
         [(''phone'', JStr ''+911234567890''), (''name'', JStr ''Asha'')] (Some ''911234567890'') = Inr ls'
       \<and> userService_getProfile browser ls' (Some ''911234567890'')
          = Inr (JObj [(''phone'', JStr ''+911234567890''), (''name'', JStr ''Asha''),
                       (''updatedAt'', JStr ''2026-01-02T00:00:00.000Z'')]))"
proof -
  let ?p = "[(''phone'', JStr ''+911234567890''), (''name'', JStr ''Asha'')] :: (string \<times> int json) list"
  have f1: "faithful browser (JArr [txn_amazon])" and f3: "faithful browser (JArr [cat_food])"
    by (rule browser_faithful, simp)+
  have f2: "faithful browser (JArr [download_no 1])"
    by (rule browser_faithful) (simp add: download_no_def)
  have sp: "spread ?p [(''updatedAt'', JStr ''2026-01-02T00:00:00.000Z'')]
      = [(''phone'', JStr ''+911234567890''), (''name'', JStr ''Asha''),
         (''updatedAt'', JStr ''2026-01-02T00:00:00.000Z'')]"
    by (simp add: spread_def)
  have f4: "faithful browser (JObj (spread ?p [(''updatedAt'', JStr ''2026-01-02T00:00:00.000Z'')]))"
    by (rule browser_faithful) (simp add: sp)
  have absent: "Map.empty k = None" for k :: string
    by simp
  note inst = save_then_read [OF browser_window, where ls = Map.empty]
  have "\<exists>ls'. transactionService_save browser Map.empty txn_amazon None = Inr ls'
       \<and> transactionService_getAll browser ls' None = Inr (JArr [txn_amazon])"
    using inst [where u = None and v = txn_amazon] f1 absent by blast
  moreover have "\<exists>ls'. downloadService_save browser Map.empty (download_no 1) (Some ''911234567890'') = Inr ls'
       \<and> downloadService_getAll browser ls' (Some ''911234567890'') = Inr (JArr [download_no 1])"
    using inst [where u = "Some ''911234567890''" and v = "download_no 1"] f2 absent by blast
  moreover have "\<exists>ls'. categoryService_add browser Map.empty ''2026-01-01T00:00:00.000Z'' ''Food'' None = Inr ls'
       \<and> categoryService_getAll browser ls' None = Inr (JArr [cat_food])"
    using inst [where u = None and n = "''Food''" and now = "''2026-01-01T00:00:00.000Z''"] f3 absent
    by blast
  moreover have "\<exists>ls'. userService_saveProfile browser Map.empty ''2026-01-02T00:00:00.000Z''
         ?p (Some ''911234567890'') = Inr ls'
       \<and> userService_getProfile browser ls' (Some ''911234567890'')
          = Inr (JObj (spread ?p [(''updatedAt'', JStr ''2026-01-02T00:00:00.000Z'')]))"
    using inst [where uid = "''911234567890''" and profile = "?p" and now = "''2026-01-02T00:00:00.000Z''"] f4
    by simp
  ultimately show ?thesis
    by (simp only: sp)
qed

text \<open>
  Claim C3 as stated fails for the profile. Saving the profile of phone
  \<open>+911234567890\<close> with no explicit identifier into the empty store writes it under the
  key of that phone; \<open>getProfile\<close> with no identifier and no session then reads the bare
  key and returns \<open>null\<close>, and \<open>getProfile\<close> for the phone returns the profile with an
  added \<open>updatedAt\<close>, which is not the value that was saved.
\<close>

theorem profile_round_trip_is_not_identity:
  "userService_saveProfile browser Map.empty ''2026-01-02T00:00:00.000Z''
      [(''phone'', JStr ''+911234567890''), (''name'', JStr ''Asha'')] None
     = Inr (Map.empty(''transactai_user_profile_911234567890'' \<mapsto>
          stringify (JObj [(''phone'', JStr ''+911234567890''), (''name'', JStr ''Asha''),
                           (''updatedAt'', JStr ''2026-01-02T00:00:00.000Z'')])))
   \<and> userService_getProfile browser
        (Map.empty(''transactai_user_profile_911234567890'' \<mapsto>
          stringify (JObj [(''phone'', JStr ''+911234567890''), (''name'', JStr ''Asha''),
                           (''updatedAt'', JStr ''2026-01-02T00:00:00.000Z'')]))) None
     = Inr JNull
   \<and> userService_getProfile browser
        (Map.empty(''transactai_user_profile_911234567890'' \<mapsto>
          stringify (JObj [(''phone'', JStr ''+911234567890''), (''name'', JStr ''Asha''),
                           (''updatedAt'', JStr ''2026-01-02T00:00:00.000Z'')]))) (Some ''911234567890'')
     = Inr (JObj [(''phone'', JStr ''+911234567890''), (''name'', JStr ''Asha''),
                  (''updatedAt'', JStr ''2026-01-02T00:00:00.000Z'')])"
proof -
  have a: "userService_saveProfile browser Map.empty ''2026-01-02T00:00:00.000Z''
      [(''phone'', JStr ''+911234567890''), (''name'', JStr ''Asha'')] None
     = Inr (Map.empty(''transactai_user_profile_911234567890'' \<mapsto>
          stringify (JObj [(''phone'', JStr ''+911234567890''), (''name'', JStr ''Asha''),
                           (''updatedAt'', JStr ''2026-01-02T00:00:00.000Z'')])))"
    by (simp add: userService_saveProfile_def browser_def getUserKey_def strip_plus_def spread_def
        del: stringify.simps)
  have b: "userService_getProfile browser
        (Map.empty(''transactai_user_profile_911234567890'' \<mapsto>
          stringify (JObj [(''phone'', JStr ''+911234567890''), (''name'', JStr ''Asha''),
                           (''updatedAt'', JStr ''2026-01-02T00:00:00.000Z'')]))) None
     = Inr JNull"
    by (simp add: userService_getProfile_def getUserKey_def parse_or_default_def browser_def
        del: stringify.simps)
  have c: "userService_getProfile browser
        (Map.empty(''transactai_user_profile_911234567890'' \<mapsto>
          stringify (JObj [(''phone'', JStr ''+911234567890''), (''name'', JStr ''Asha''),
                           (''updatedAt'', JStr ''2026-01-02T00:00:00.000Z'')]))) (Some ''911234567890'')
     = Inr (JObj [(''phone'', JStr ''+911234567890''), (''name'', JStr ''Asha''),
                  (''updatedAt'', JStr ''2026-01-02T00:00:00.000Z'')])"
    by (simp add: userService_getProfile_def getUserKey_def browser_window browser_reads
        del: stringify.simps)
  from a b c show ?thesis
    by blast
qed

section \<open>Array callbacks\<close>

lemma findIndex_none:
  "\<forall>t \<in> set xs. p t = Inr False \<Longrightarrow> findIndex p xs = Inr None"
  by (induction xs) auto

lemma filter_arr_total:
  "\<forall>t \<in> set xs. p t = Inr (q t) \<Longrightarrow> filter_arr p xs = Inr (filter q xs)"
  by (induction xs) auto

lemma prop_is_not_null:
  "t \<noteq> JNull \<Longrightarrow> prop_is p s t = Inr (get_prop t p = Inr (Some (JStr s)))"
  by (cases t) (auto simp: prop_is_def)

lemma prop_is_not_not_null:
  "t \<noteq> JNull \<Longrightarrow> prop_is_not p s t = Inr (get_prop t p \<noteq> Inr (Some (JStr s)))"
  by (cases t) (auto simp: prop_is_not_def)

lemma filter_arr_prop_is_not:
  "JNull \<notin> set xs \<Longrightarrow>
   filter_arr (prop_is_not p s) xs = Inr (filter (\<lambda>t. get_prop t p \<noteq> Inr (Some (JStr s))) xs)"
proof (rule filter_arr_total, rule ballI)
  fix t
  assume "JNull \<notin> set xs" and "t \<in> set xs"
  then have "t \<noteq> JNull"
    by auto
  then show "prop_is_not p s t = Inr (get_prop t p \<noteq> Inr (Some (JStr s)))"
    by (rule prop_is_not_not_null)
qed

lemma getAll_no_window:
  "\<not> has_window e \<Longrightarrow> transactionService_getAll e ls u = Inr (JArr [])"
  "\<not> has_window e \<Longrightarrow> categoryService_getAll e ls u = Inr (JArr [])"
  "\<not> has_window e \<Longrightarrow> downloadService_getAll e ls u = Inr (JArr [])"
  by (simp_all add: transactionService_getAll_def categoryService_getAll_def downloadService_getAll_def)

lemma find_first_found:
  "c \<in> set cs \<Longrightarrow> p c = Inr True \<Longrightarrow> \<forall>x \<in> set cs. \<exists>b. p x = Inr b \<Longrightarrow>
   \<exists>c'. find_first p cs = Inr (Some c') \<and> p c' = Inr True"
proof (induction cs)
  case Nil
  then show ?case by simp
next
  case (Cons a cs)
  from Cons.prems(3) obtain b where b: "p a = Inr b"
    by auto
  show ?case
  proof (cases b)
    case True
    with b show ?thesis by simp
  next
    case False
    with b Cons.prems(1,2) have "c \<in> set cs"
      by auto
    then have "\<exists>c'. find_first p cs = Inr (Some c') \<and> p c' = Inr True"
      using Cons.prems(2,3) by (intro Cons.IH) auto
    with b False show ?thesis by simp
  qed
qed

lemma name_matches_object:
  "name_matches e n c = Inr b \<Longrightarrow> \<exists>fs. c = JObj fs"
  by (cases c) (auto simp: name_matches_def split: option.splits json.splits)

lemma name_matches_named:
  "get_prop c ''name'' = Inr (Some (JStr s)) \<Longrightarrow>
   name_matches e n c = Inr (toLowerCase e s = toLowerCase e n)"
  by (simp add: name_matches_def)

lemma add_existing:
  assumes "categoryService_getAll e ls u = Inr (JArr cs)"
    and "\<forall>c \<in> set cs. \<exists>s. get_prop c ''name'' = Inr (Some (JStr s))"
    and "\<exists>c \<in> set cs. \<exists>s. get_prop c ''name'' = Inr (Some (JStr s)) \<and> toLowerCase e s = toLowerCase e n"
  shows "categoryService_add e ls now n u = Inr ls"
proof -
  have "\<forall>c \<in> set cs. \<exists>b. name_matches e n c = Inr b"
    using assms(2) by (auto simp: name_matches_named)
  moreover obtain c0 s where "c0 \<in> set cs" and "get_prop c0 ''name'' = Inr (Some (JStr s))"
    and "toLowerCase e s = toLowerCase e n"
    using assms(3) by blast
  moreover from this have "name_matches e n c0 = Inr True"
    by (simp add: name_matches_named)
  ultimately obtain c where c: "find_first (name_matches e n) cs = Inr (Some c)"
    and "name_matches e n c = Inr True"
    using find_first_found [of c0 cs "name_matches e n"] by blast
  then obtain fs where "c = JObj fs"
    using name_matches_object by blast
  then have "js_truthy c"
    by simp
  with c show ?thesis
    using assms(1) by (simp add: categoryService_add_def)
qed

lemma findIndex_first:
  assumes "\<forall>t \<in> set xs. p t = Inr (q t)" and "\<exists>t \<in> set xs. q t"
  shows "findIndex p xs = Inr (Some (length (takeWhile (\<lambda>t. \<not> q t) xs)))"
  using assms
proof (induction xs)
  case Nil
  then show ?case by simp
next
  case (Cons a xs)
  have a: "p a = Inr (q a)"
    using Cons.prems(1) by simp
  show ?case
  proof (cases "q a")
    case True
    with a show ?thesis by simp
  next
    case False
    with Cons.prems have "\<forall>t \<in> set xs. p t = Inr (q t)" and "\<exists>t \<in> set xs. q t"
      by auto
    then have "findIndex p xs = Inr (Some (length (takeWhile (\<lambda>t. \<not> q t) xs)))"
      by (rule Cons.IH)
    with a False show ?thesis by simp
  qed
qed

lemma findIndex_id:
  assumes "JNull \<notin> set xs" and "\<exists>t \<in> set xs. get_prop t ''id'' = Inr (Some (JStr i))"
  shows "findIndex (prop_is ''id'' i) xs
     = Inr (Some (length (takeWhile (\<lambda>t. get_prop t ''id'' \<noteq> Inr (Some (JStr i))) xs)))"
proof -
  have "\<forall>t \<in> set xs. prop_is ''id'' i t = Inr (get_prop t ''id'' = Inr (Some (JStr i)))"
  proof
    fix t
    assume "t \<in> set xs"
    with assms(1) have "t \<noteq> JNull"
      by auto
    then show "prop_is ''id'' i t = Inr (get_prop t ''id'' = Inr (Some (JStr i)))"
      by (rule prop_is_not_null)
  qed
  from findIndex_first [OF this assms(2)] show ?thesis
    by simp
qed

lemma first_match_has_id:
  assumes "k = length (takeWhile (\<lambda>t. get_prop t ''id'' \<noteq> Inr (Some (JStr i))) xs)"
    and "k < length xs"
  shows "get_prop (xs ! k) ''id'' = Inr (Some (JStr i))"
  using assms nth_length_takeWhile [of "\<lambda>t. get_prop t ''id'' \<noteq> Inr (Some (JStr i))" xs]
  by auto

lemma map_of_update_other:
  "f \<noteq> k \<Longrightarrow> map_of (AList.update k v al) f = map_of al f"
  by (simp add: update_conv')

lemma map_of_spread_frame:
  "f \<notin> fst ` set b \<Longrightarrow> map_of (spread a b) f = map_of a f"
  unfolding spread_def
proof (induction b arbitrary: a)
  case Nil
  then show ?case by simp
next
  case (Cons kv b)
  then have "f \<noteq> fst kv" and "f \<notin> fst ` set b"
    by auto
  then show ?case
    using Cons.IH [of "AList.update (fst kv) (snd kv) a"] by (simp add: map_of_update_other)
qed

lemma map_of_spread:
  "map_of (spread a b) = map_of a ++ map_of (rev b)"
  unfolding spread_def
proof (induction b arbitrary: a)
  case Nil
  then show ?case by simp
next
  case (Cons kv b)
  show ?case
    using Cons.IH [of "AList.update (fst kv) (snd kv) a"]
    by (cases kv) (simp add: update_conv' map_add_upd_left fun_eq_iff map_add_def split: option.splits)
qed

lemma update_found:
  assumes "transactionService_getAll e ls u = Inr (JArr xs)"
    and "JNull \<notin> set xs"
    and "k = length (takeWhile (\<lambda>t. get_prop t ''id'' \<noteq> Inr (Some (JStr i))) xs)"
    and "k < length xs"
    and "xs ! k = JObj fs"
    and "faithful e (JArr (xs[k := JObj (spread fs patch)]))"
  shows "\<exists>ls'. transactionService_update e ls i patch u = Inr ls'
      \<and> transactionService_getAll e ls' u = Inr (JArr (xs[k := JObj (spread fs patch)]))"
proof -
  have win: "has_window e"
  proof (rule ccontr)
    assume "\<not> has_window e"
    then have "xs = []"
      using assms(1) by (simp add: getAll_no_window)
    with assms(4) show False
      by simp
  qed
  have "get_prop (xs ! k) ''id'' = Inr (Some (JStr i))"
    using assms(3,4) by (rule first_match_has_id)
  moreover have "xs ! k \<in> set xs"
    using assms(4) by simp
  ultimately have "\<exists>t \<in> set xs. get_prop t ''id'' = Inr (Some (JStr i))"
    by blast
  with assms(2) have "findIndex (prop_is ''id'' i) xs = Inr (Some k)"
    unfolding assms(3) by (rule findIndex_id)
  then have "transactionService_update e ls i patch u
      = Inr (ls(getUserKey e ls STORAGE_KEYS_TRANSACTIONS u \<mapsto>
              JSON_stringify e (JArr (xs[k := JObj (spread fs patch)]))))"
    using assms(1,5) win by (simp add: transactionService_update_def)
  moreover have "transactionService_getAll e
      (ls(getUserKey e ls STORAGE_KEYS_TRANSACTIONS u \<mapsto>
              JSON_stringify e (JArr (xs[k := JObj (spread fs patch)])))) u
      = Inr (JArr (xs[k := JObj (spread fs patch)]))"
    using win assms(6) by (rule transactions_read_after_write)
  ultimately show ?thesis
    by simp
qed

lemma findIndex_Some:
  "findIndex p xs = Inr (Some k) \<Longrightarrow> k < length xs \<and> p (xs ! k) = Inr True"
proof (induction xs arbitrary: k)
  case Nil
  then show ?case by simp
next
  case (Cons a xs)
  then show ?case
    by (cases k) (auto split: sum.splits if_splits option.splits)
qed

lemma prop_is_True_object:
  "prop_is p s t = Inr True \<Longrightarrow> \<exists>fs. t = JObj fs \<and> map_of fs p = Some (JStr s)"
  by (cases t) (auto simp: prop_is_def)

lemma findIndex_prop_is_Some:
  "findIndex (prop_is p s) xs = Inr (Some k) \<Longrightarrow>
   k < length xs \<and> (\<exists>fs. xs ! k = JObj fs \<and> map_of fs p = Some (JStr s))"
  using findIndex_Some [of "prop_is p s" xs k] prop_is_True_object [of p s "xs ! k"] by blast

section \<open>Stored example collections\<close>

text \<open>What the reference environment reads from a store that holds the two example
  transactions, respectively the one example category.\<close>

lemma example_transactions_stored:
  "transactionService_getAll browser
     (Map.empty(STORAGE_KEYS_TRANSACTIONS \<mapsto> stringify (JArr [txn_amazon, txn_netflix]))) None
   = Inr (JArr [txn_amazon, txn_netflix])"
  by (simp add: transactionService_getAll_def getUserKey_def browser_window browser_reads
      del: stringify.simps)

lemma example_categories_stored:
  "categoryService_getAll browser
     (Map.empty(STORAGE_KEYS_CATEGORIES \<mapsto> stringify (JArr [cat_food]))) None
   = Inr (JArr [cat_food])"
  by (simp add: categoryService_getAll_def getUserKey_def browser_window browser_reads
      del: stringify.simps)

section \<open>Update and delete of an absent id\<close>

text \<open>
  Claim C7. Not-found on update or delete is a silent no-op, not an error: when the stored
  collection (a list of transaction objects, none of them \<open>null\<close>) holds no record with
  id \<open>i\<close>, \<open>transactionService.update(i, patch)\<close> returns without raising and leaves the
  store as it was, and \<open>transactionService.delete(i)\<close> returns without raising and the
  collection read afterwards equals the previous one (the collection is rewritten, so
  this needs the JSON functions to be faithful on it).
\<close>

theorem not_found_is_noop:
  assumes "transactionService_getAll e ls u = Inr (JArr xs)"
    and "JNull \<notin> set xs"
    and "\<forall>t \<in> set xs. get_prop t ''id'' \<noteq> Inr (Some (JStr i))"
  shows "transactionService_update e ls i patch u = Inr ls
    \<and> (faithful e (JArr xs) \<longrightarrow>
         (\<exists>ls'. transactionService_delete e ls i u = Inr ls'
            \<and> transactionService_getAll e ls' u = Inr (JArr xs)))"
proof -
  have "\<forall>t \<in> set xs. prop_is ''id'' i t = Inr False"
  proof
    fix t
    assume t: "t \<in> set xs"
    with assms(2) have "t \<noteq> JNull"
      by auto
    with t assms(3) show "prop_is ''id'' i t = Inr False"
      by (simp add: prop_is_not_null)
  qed
  then have "findIndex (prop_is ''id'' i) xs = Inr None"
    by (rule findIndex_none)
  then have upd: "transactionService_update e ls i patch u = Inr ls"
    using assms(1) by (simp add: transactionService_update_def)
  have "filter (\<lambda>t. get_prop t ''id'' \<noteq> Inr (Some (JStr i))) xs = xs"
    using assms(3) by (simp add: filter_id_conv)
  then have flt: "filter_arr (prop_is_not ''id'' i) xs = Inr xs"
    using assms(2) by (simp add: filter_arr_prop_is_not)
  have del: "faithful e (JArr xs) \<longrightarrow>
         (\<exists>ls'. transactionService_delete e ls i u = Inr ls'
            \<and> transactionService_getAll e ls' u = Inr (JArr xs))"
  proof (cases "has_window e")
    case True
    then show ?thesis
      using assms(1) flt
      by (simp add: transactionService_delete_def transactions_read_after_write)
  next
    case False
    then show ?thesis
      using assms(1) by (simp add: transactionService_delete_def getAll_no_window)
  qed
  from upd del show ?thesis
    by blast
qed

theorem not_found_is_noop_witness:
  "transactionService_update browser
      (Map.empty(STORAGE_KEYS_TRANSACTIONS \<mapsto> stringify (JArr [txn_amazon, txn_netflix])))
      ''txn_404'' [(''amount'', JNum 1)] None
     = Inr (Map.empty(STORAGE_KEYS_TRANSACTIONS \<mapsto> stringify (JArr [txn_amazon, txn_netflix])))
   \<and> (\<exists>ls'. transactionService_delete browser
          (Map.empty(STORAGE_KEYS_TRANSACTIONS \<mapsto> stringify (JArr [txn_amazon, txn_netflix])))
          ''txn_404'' None = Inr ls'
        \<and> transactionService_getAll browser ls' None = Inr (JArr [txn_amazon, txn_netflix]))"
proof -
  have f: "faithful browser (JArr [txn_amazon, txn_netflix])"
    by (rule browser_faithful) simp
  show ?thesis
    using not_found_is_noop [OF example_transactions_stored, of "''txn_404''" "[(''amount'', JNum 1)]"] f
    by simp
qed

section \<open>Removing a category\<close>

text \<open>
  Claim C10. Category removal matches names case-sensitively, unlike insertion:
  \<open>categoryService.remove(n)\<close> removes exactly the stored categories whose name equals
  \<open>n\<close> character for character. A category added as \<open>Food\<close> and then removed as \<open>food\<close>
  remains stored.
\<close>

theorem remove_is_case_sensitive:
  assumes "categoryService_getAll e ls u = Inr (JArr cs)"
    and "JNull \<notin> set cs"
    and "faithful e (JArr (filter (\<lambda>c. get_prop c ''name'' \<noteq> Inr (Some (JStr n))) cs))"
  shows "\<exists>ls'. categoryService_remove e ls n u = Inr ls'
    \<and> categoryService_getAll e ls' u
        = Inr (JArr (filter (\<lambda>c. get_prop c ''name'' \<noteq> Inr (Some (JStr n))) cs))"
proof (cases "has_window e")
  case True
  then show ?thesis
    using assms
    by (simp add: categoryService_remove_def filter_arr_prop_is_not categories_read_after_write)
next
  case False
  then have "cs = []"
    using assms(1) by (simp add: getAll_no_window)
  then show ?thesis
    using False by (simp add: categoryService_remove_def getAll_no_window)
qed

theorem remove_is_case_sensitive_witness:
  "(\<exists>ls'. categoryService_remove browser
          (Map.empty(STORAGE_KEYS_CATEGORIES \<mapsto> stringify (JArr [cat_food]))) ''food'' None = Inr ls'
        \<and> categoryService_getAll browser ls' None = Inr (JArr [cat_food]))
   \<and> (\<exists>ls'. categoryService_remove browser
          (Map.empty(STORAGE_KEYS_CATEGORIES \<mapsto> stringify (JArr [cat_food]))) ''Food'' None = Inr ls'
        \<and> categoryService_getAll browser ls' None = Inr (JArr []))
   \<and> categoryService_add browser Map.empty ''2026-01-01T00:00:00.000Z'' ''Food'' None
        = Inr (Map.empty(STORAGE_KEYS_CATEGORIES \<mapsto> stringify (JArr [cat_food])))"
proof -
  have f1: "faithful browser (JArr [cat_food])" and f2: "faithful browser (JArr [])"
    by (rule browser_faithful, simp)+
  have added: "categoryService_add browser Map.empty ''2026-01-01T00:00:00.000Z'' ''Food'' None
        = Inr (Map.empty(STORAGE_KEYS_CATEGORIES \<mapsto> stringify (JArr [cat_food])))"
    by (simp add: categoryService_add_def categoryService_getAll_def getUserKey_def
        parse_or_default_def browser_def del: stringify.simps)
  show ?thesis
    using remove_is_case_sensitive [OF example_categories_stored, of "''food''"]
      remove_is_case_sensitive [OF example_categories_stored, of "''Food''"] f1 f2 added
    by simp
qed

section \<open>Adding a category\<close>

text \<open>
  Claim C5. Category names are de-duplicated case-insensitively on insert:
  \<open>categoryService.add(n)\<close> leaves the store unchanged when some stored category's name
  equals \<open>n\<close> up to case (the stored collection being a list of categories, each with a
  string name); consequently adding a name and then the same name in another casing, starting
  with nothing stored, results in exactly one stored category.
\<close>

theorem add_is_case_insensitive:
  "(categoryService_getAll e ls u = Inr (JArr cs)
      \<and> (\<forall>c \<in> set cs. \<exists>s. get_prop c ''name'' = Inr (Some (JStr s)))
      \<and> (\<exists>c \<in> set cs. \<exists>s. get_prop c ''name'' = Inr (Some (JStr s))
            \<and> toLowerCase e s = toLowerCase e n)
      \<longrightarrow> categoryService_add e ls now n u = Inr ls)
   \<and> (has_window e \<and> ls (getUserKey e ls STORAGE_KEYS_CATEGORIES u) = None
        \<and> faithful e (JArr [JObj [(''name'', JStr n), (''createdAt'', JStr now)]])
        \<and> toLowerCase e m = toLowerCase e n
      \<longrightarrow> (\<exists>ls1. categoryService_add e ls now n u = Inr ls1
             \<and> categoryService_add e ls1 later m u = Inr ls1
             \<and> categoryService_getAll e ls1 u
                = Inr (JArr [JObj [(''name'', JStr n), (''createdAt'', JStr now)]])))"
proof -
  have twice: "\<exists>ls1. categoryService_add e ls now n u = Inr ls1
             \<and> categoryService_add e ls1 later m u = Inr ls1
             \<and> categoryService_getAll e ls1 u
                = Inr (JArr [JObj [(''name'', JStr n), (''createdAt'', JStr now)]])"
    if win: "has_window e" and absent: "ls (getUserKey e ls STORAGE_KEYS_CATEGORIES u) = None"
      and faith: "faithful e (JArr [JObj [(''name'', JStr n), (''createdAt'', JStr now)]])"
      and same: "toLowerCase e m = toLowerCase e n"
  proof -
    let ?c = "JObj [(''name'', JStr n), (''createdAt'', JStr now)]"
    let ?ls1 = "ls(getUserKey e ls STORAGE_KEYS_CATEGORIES u \<mapsto> JSON_stringify e (JArr [?c]))"
    have first: "categoryService_add e ls now n u = Inr ?ls1"
      using win absent by (simp add: categoryService_add_def categories_absent)
    have got: "categoryService_getAll e ?ls1 u = Inr (JArr [?c])"
      using win faith by (rule categories_read_after_write)
    have "categoryService_add e ?ls1 later m u = Inr ?ls1"
      using got by (rule add_existing) (simp_all add: same [symmetric])
    with first got show ?thesis
      by blast
  qed
  show ?thesis
    using add_existing [of e ls u cs n now] twice by blast
qed

lemma lower_food: "toLowerCase browser ''FOOD'' = toLowerCase browser ''Food''"
  by code_simp

theorem add_is_case_insensitive_witness:
  "categoryService_add browser
      (Map.empty(STORAGE_KEYS_CATEGORIES \<mapsto> stringify (JArr [cat_food])))
      ''2026-02-02T00:00:00.000Z'' ''FOOD'' None
     = Inr (Map.empty(STORAGE_KEYS_CATEGORIES \<mapsto> stringify (JArr [cat_food])))
   \<and> (\<exists>ls1. categoryService_add browser Map.empty ''2026-01-01T00:00:00.000Z'' ''Food'' None = Inr ls1
        \<and> categoryService_add browser ls1 ''2026-02-02T00:00:00.000Z'' ''FOOD'' None = Inr ls1
        \<and> categoryService_getAll browser ls1 None = Inr (JArr [cat_food]))"
proof -
  have f: "faithful browser (JArr [cat_food])"
    by (rule browser_faithful) simp
  have absent: "Map.empty (getUserKey browser Map.empty STORAGE_KEYS_CATEGORIES None) = None"
    by simp
  show ?thesis
    using add_is_case_insensitive [where e = browser
        and ls = "Map.empty(STORAGE_KEYS_CATEGORIES \<mapsto> stringify (JArr [cat_food]))"
        and u = None and cs = "[cat_food]" and n = "''FOOD''" and now = "''2026-02-02T00:00:00.000Z''"]
      add_is_case_insensitive [where e = browser and ls = Map.empty and u = None
        and n = "''Food''" and m = "''FOOD''" and now = "''2026-01-01T00:00:00.000Z''"
        and later = "''2026-02-02T00:00:00.000Z''"]
      example_categories_stored f absent lower_food browser_window
    by (simp del: stringify.simps)
qed

section \<open>Updating a transaction\<close>

text \<open>
  Claim C6. For a stored transaction list containing a transaction with id \<open>i\<close>,
  \<open>transactionService.update(i, patch)\<close> shallow-merges \<open>patch\<close> into that transaction
  only (the first one with that id, at index \<open>k\<close>): every field of the target not named
  in \<open>patch\<close> keeps its previous value, every field named in \<open>patch\<close> takes the value
  given there, and every other transaction of the collection is unchanged.
\<close>

theorem update_merges_target_only:
  assumes "transactionService_getAll e ls u = Inr (JArr xs)"
    and "JNull \<notin> set xs"
    and "k = length (takeWhile (\<lambda>t. get_prop t ''id'' \<noteq> Inr (Some (JStr i))) xs)"
    and "k < length xs"
    and "xs ! k = JObj fs"
    and "faithful e (JArr (xs[k := JObj (spread fs patch)]))"
  shows "map_of fs ''id'' = Some (JStr i)
    \<and> (\<exists>ls'. transactionService_update e ls i patch u = Inr ls'
          \<and> transactionService_getAll e ls' u = Inr (JArr (xs[k := JObj (spread fs patch)])))
    \<and> (\<forall>f. f \<notin> fst ` set patch \<longrightarrow> map_of (spread fs patch) f = map_of fs f)
    \<and> (\<forall>f. f \<in> fst ` set patch \<longrightarrow> map_of (spread fs patch) f = map_of (rev patch) f)
    \<and> length (xs[k := JObj (spread fs patch)]) = length xs
    \<and> (\<forall>j < length xs. j \<noteq> k \<longrightarrow> (xs[k := JObj (spread fs patch)]) ! j = xs ! j)"
proof -
  have "get_prop (xs ! k) ''id'' = Inr (Some (JStr i))"
    using assms(3,4) by (rule first_match_has_id)
  then have ident: "map_of fs ''id'' = Some (JStr i)"
    using assms(5) by simp
  have patched: "\<forall>f. f \<in> fst ` set patch \<longrightarrow> map_of (spread fs patch) f = map_of (rev patch) f"
  proof (intro allI impI)
    fix f
    assume "f \<in> fst ` set patch"
    then have "f \<in> fst ` set (rev patch)"
      by simp
    then have "map_of (rev patch) f \<noteq> None"
      by (simp only: map_of_eq_None_iff not_not)
    then show "map_of (spread fs patch) f = map_of (rev patch) f"
      by (auto simp: map_of_spread map_add_def)
  qed
  from ident update_found [OF assms] patched show ?thesis
    by (simp add: map_of_spread_frame)
qed

theorem update_merges_target_only_witness:
  "\<exists>ls'. transactionService_update browser
        (Map.empty(STORAGE_KEYS_TRANSACTIONS \<mapsto> stringify (JArr [txn_amazon, txn_netflix])))
        ''txn_2'' [(''category'', JStr ''Subscriptions''), (''recipient'', JStr ''Netflix'')] None = Inr ls'
      \<and> transactionService_getAll browser ls' None
         = Inr (JArr [txn_amazon,
              JObj [(''id'', JStr ''txn_2''), (''description'', JStr ''Payment to Netflix''),
                (''amount'', JNum 4331), (''category'', JStr ''Subscriptions''),
                (''date'', JStr ''2026-01-02T00:00:00.000Z''), (''recipient'', JStr ''Netflix'')]])"
proof -
  let ?fs = "[(''id'', JStr ''txn_2''), (''description'', JStr ''Payment to Netflix''),
     (''amount'', JNum 4331), (''category'', JStr ''Entertainment''),
     (''date'', JStr ''2026-01-02T00:00:00.000Z'')] :: (string \<times> int json) list"
  let ?patch = "[(''category'', JStr ''Subscriptions''), (''recipient'', JStr ''Netflix'')] :: (string \<times> int json) list"
  let ?xs = "[txn_amazon, txn_netflix]"
  have k: "(1::nat) = length (takeWhile (\<lambda>t. get_prop t ''id'' \<noteq> Inr (Some (JStr ''txn_2''))) ?xs)"
    by simp
  have sp: "spread ?fs ?patch = [(''id'', JStr ''txn_2''), (''description'', JStr ''Payment to Netflix''),
                (''amount'', JNum 4331), (''category'', JStr ''Subscriptions''),
                (''date'', JStr ''2026-01-02T00:00:00.000Z''), (''recipient'', JStr ''Netflix'')]"
    by (simp add: spread_def)
  have f: "faithful browser (JArr (?xs[1 := JObj (spread ?fs ?patch)]))"
    by (rule browser_faithful) (simp add: sp)
  show ?thesis
    using update_merges_target_only [OF example_transactions_stored _ k _ _ f] sp
    by simp
qed

section \<open>Uniqueness of transaction ids\<close>

lemma ids_of_update:
  assumes "k < length xs" and "get_prop y ''id'' = get_prop (xs ! k) ''id''"
  shows "ids_of (xs[k := y]) = ids_of xs"
proof -
  have "ids_of (xs[k := y]) = (ids_of xs)[k := get_prop y ''id'']"
    by (simp add: ids_of_def map_update)
  also have "\<dots> = (ids_of xs)[k := ids_of xs ! k]"
    using assms by (simp add: ids_of_def)
  finally show ?thesis
    by simp
qed

text \<open>
  Claim C9, as amended. The layer never checks ids, but its operations keep them apart
  under these conditions: when the stored transactions (none of them \<open>null\<close>) have
  pairwise different ids, they still have after \<open>save\<close> of a transaction whose id is not
  stored yet, after \<open>delete\<close>, and after \<open>update\<close> with a patch that does not name \<open>id\<close>.
\<close>

theorem ids_stay_unique:
  assumes "has_window e"
    and "transactionService_getAll e ls u = Inr (JArr xs)"
    and "JNull \<notin> set xs"
    and "distinct (ids_of xs)"
  shows "(get_prop t ''id'' \<notin> set (ids_of xs) \<and> faithful e (JArr (xs @ [t]))
      \<longrightarrow> (\<exists>ls'. transactionService_save e ls t u = Inr ls'
            \<and> transactionService_getAll e ls' u = Inr (JArr (xs @ [t]))
            \<and> distinct (ids_of (xs @ [t]))))
    \<and> (faithful e (JArr (filter (\<lambda>t. get_prop t ''id'' \<noteq> Inr (Some (JStr i))) xs))
      \<longrightarrow> (\<exists>ls'. transactionService_delete e ls i u = Inr ls'
            \<and> transactionService_getAll e ls' u
                = Inr (JArr (filter (\<lambda>t. get_prop t ''id'' \<noteq> Inr (Some (JStr i))) xs))
            \<and> distinct (ids_of (filter (\<lambda>t. get_prop t ''id'' \<noteq> Inr (Some (JStr i))) xs))))
    \<and> (k = length (takeWhile (\<lambda>t. get_prop t ''id'' \<noteq> Inr (Some (JStr i))) xs) \<and> k < length xs
        \<and> xs ! k = JObj fs \<and> ''id'' \<notin> fst ` set patch
        \<and> faithful e (JArr (xs[k := JObj (spread fs patch)]))
      \<longrightarrow> (\<exists>ls'. transactionService_update e ls i patch u = Inr ls'
            \<and> transactionService_getAll e ls' u = Inr (JArr (xs[k := JObj (spread fs patch)]))
            \<and> distinct (ids_of (xs[k := JObj (spread fs patch)]))))"
proof -
  have save: "\<exists>ls'. transactionService_save e ls t u = Inr ls'
            \<and> transactionService_getAll e ls' u = Inr (JArr (xs @ [t]))
            \<and> distinct (ids_of (xs @ [t]))"
    if "get_prop t ''id'' \<notin> set (ids_of xs)" and "faithful e (JArr (xs @ [t]))"
    using that assms(1,2,4)
    by (simp add: transactionService_save_def transactions_read_after_write ids_of_def)
  have delete: "\<exists>ls'. transactionService_delete e ls i u = Inr ls'
            \<and> transactionService_getAll e ls' u
                = Inr (JArr (filter (\<lambda>t. get_prop t ''id'' \<noteq> Inr (Some (JStr i))) xs))
            \<and> distinct (ids_of (filter (\<lambda>t. get_prop t ''id'' \<noteq> Inr (Some (JStr i))) xs))"
    if "faithful e (JArr (filter (\<lambda>t. get_prop t ''id'' \<noteq> Inr (Some (JStr i))) xs))"
    using that assms
    by (simp add: transactionService_delete_def filter_arr_prop_is_not transactions_read_after_write
        ids_of_def distinct_map_filter)
  have update: "\<exists>ls'. transactionService_update e ls i patch u = Inr ls'
            \<and> transactionService_getAll e ls' u = Inr (JArr (xs[k := JObj (spread fs patch)]))
            \<and> distinct (ids_of (xs[k := JObj (spread fs patch)]))"
    if k: "k = length (takeWhile (\<lambda>t. get_prop t ''id'' \<noteq> Inr (Some (JStr i))) xs)" "k < length xs"
      and fs: "xs ! k = JObj fs" and patch: "''id'' \<notin> fst ` set patch"
      and faith: "faithful e (JArr (xs[k := JObj (spread fs patch)]))"
  proof -
    have "get_prop (JObj (spread fs patch)) ''id'' = get_prop (xs ! k) ''id''"
      using patch by (simp add: fs map_of_spread_frame)
    with k(2) have "ids_of (xs[k := JObj (spread fs patch)]) = ids_of xs"
      by (rule ids_of_update)
    with assms(4) update_found [OF assms(2,3) k fs faith] show ?thesis
      by simp
  qed
  from save delete update show ?thesis
    by blast
qed

theorem ids_stay_unique_witness:
  "(\<exists>ls'. transactionService_save browser
        (Map.empty(STORAGE_KEYS_TRANSACTIONS \<mapsto> stringify (JArr [txn_amazon]))) txn_netflix None = Inr ls'
      \<and> transactionService_getAll browser ls' None = Inr (JArr [txn_amazon, txn_netflix])
      \<and> distinct (ids_of [txn_amazon, txn_netflix]))
   \<and> (\<exists>ls'. transactionService_delete browser
        (Map.empty(STORAGE_KEYS_TRANSACTIONS \<mapsto> stringify (JArr [txn_amazon, txn_netflix]))) ''txn_1'' None = Inr ls'
      \<and> transactionService_getAll browser ls' None = Inr (JArr [txn_netflix])
      \<and> distinct (ids_of [txn_netflix]))
   \<and> (\<exists>ls'. transactionService_update browser
        (Map.empty(STORAGE_KEYS_TRANSACTIONS \<mapsto> stringify (JArr [txn_amazon, txn_netflix])))
        ''txn_1'' [(''amount'', JNum 99)] None = Inr ls'
      \<and> transactionService_getAll browser ls' None
         = Inr (JArr [JObj [(''id'', JStr ''txn_1''), (''description'', JStr ''Payment to Amazon''),
              (''amount'', JNum 99), (''category'', JStr ''Shopping''),
              (''date'', JStr ''2026-01-01T00:00:00.000Z'')], txn_netflix])
      \<and> distinct (ids_of [JObj [(''id'', JStr ''txn_1''), (''description'', JStr ''Payment to Amazon''),
              (''amount'', JNum 99), (''category'', JStr ''Shopping''),
              (''date'', JStr ''2026-01-01T00:00:00.000Z'')], txn_netflix]))"
proof -
  let ?fs = "[(''id'', JStr ''txn_1''), (''description'', JStr ''Payment to Amazon''),
     (''amount'', JNum 4301), (''category'', JStr ''Shopping''),
     (''date'', JStr ''2026-01-01T00:00:00.000Z'')] :: (string \<times> int json) list"
  have one: "transactionService_getAll browser
     (Map.empty(STORAGE_KEYS_TRANSACTIONS \<mapsto> stringify (JArr [txn_amazon]))) None
     = Inr (JArr [txn_amazon])"
    by (simp add: transactionService_getAll_def getUserKey_def browser_window browser_reads
        del: stringify.simps)
  have sp: "spread ?fs [(''amount'', JNum 99)]
      = [(''id'', JStr ''txn_1''), (''description'', JStr ''Payment to Amazon''),
         (''amount'', JNum 99), (''category'', JStr ''Shopping''),
         (''date'', JStr ''2026-01-01T00:00:00.000Z'')]"
    by (simp add: spread_def)
  have f1: "faithful browser (JArr ([txn_amazon] @ [txn_netflix]))"
    and f2: "faithful browser (JArr (filter (\<lambda>t. get_prop t ''id'' \<noteq> Inr (Some (JStr ''txn_1'')))
        [txn_amazon, txn_netflix]))"
    and f3: "faithful browser (JArr ([txn_amazon, txn_netflix][0 := JObj (spread ?fs [(''amount'', JNum 99)])]))"
    by (rule browser_faithful, simp add: sp)+
  have saved: "\<exists>ls'. transactionService_save browser
        (Map.empty(STORAGE_KEYS_TRANSACTIONS \<mapsto> stringify (JArr [txn_amazon]))) txn_netflix None = Inr ls'
      \<and> transactionService_getAll browser ls' None = Inr (JArr [txn_amazon, txn_netflix])
      \<and> distinct (ids_of [txn_amazon, txn_netflix])"
    using ids_stay_unique [OF browser_window one, where t = txn_netflix] f1
    by (simp add: ids_of_def)
  have deleted: "\<exists>ls'. transactionService_delete browser
        (Map.empty(STORAGE_KEYS_TRANSACTIONS \<mapsto> stringify (JArr [txn_amazon, txn_netflix]))) ''txn_1'' None = Inr ls'
      \<and> transactionService_getAll browser ls' None = Inr (JArr [txn_netflix])
      \<and> distinct (ids_of [txn_netflix])"
    using ids_stay_unique [OF browser_window example_transactions_stored, where i = "''txn_1''"] f2
    by (simp add: ids_of_def)
  have updated: "\<exists>ls'. transactionService_update browser
        (Map.empty(STORAGE_KEYS_TRANSACTIONS \<mapsto> stringify (JArr [txn_amazon, txn_netflix])))
        ''txn_1'' [(''amount'', JNum 99)] None = Inr ls'
      \<and> transactionService_getAll browser ls' None
         = Inr (JArr [JObj [(''id'', JStr ''txn_1''), (''description'', JStr ''Payment to Amazon''),
              (''amount'', JNum 99), (''category'', JStr ''Shopping''),
              (''date'', JStr ''2026-01-01T00:00:00.000Z'')], txn_netflix])
      \<and> distinct (ids_of [JObj [(''id'', JStr ''txn_1''), (''description'', JStr ''Payment to Amazon''),
              (''amount'', JNum 99), (''category'', JStr ''Shopping''),
              (''date'', JStr ''2026-01-01T00:00:00.000Z'')], txn_netflix])"
    using ids_stay_unique [OF browser_window example_transactions_stored, where i = "''txn_1''"
        and k = 0 and fs = "?fs" and patch = "[(''amount'', JNum 99)]"] f3 sp
    by (simp add: ids_of_def)
  from saved deleted updated show ?thesis
    by blast
qed

text \<open>
  Claim C9 as stated fails: \<open>save\<close> appends without looking at the ids, so saving the
  same transaction twice into the empty store leaves two stored transactions with the id
  \<open>txn_1\<close>.
\<close>

theorem duplicate_ids_after_two_saves:
  "transactionService_save browser Map.empty txn_amazon None
     = Inr (Map.empty(STORAGE_KEYS_TRANSACTIONS \<mapsto> stringify (JArr [txn_amazon])))
   \<and> transactionService_save browser
        (Map.empty(STORAGE_KEYS_TRANSACTIONS \<mapsto> stringify (JArr [txn_amazon]))) txn_amazon None
     = Inr (Map.empty(STORAGE_KEYS_TRANSACTIONS \<mapsto> stringify (JArr [txn_amazon, txn_amazon])))
   \<and> transactionService_getAll browser
        (Map.empty(STORAGE_KEYS_TRANSACTIONS \<mapsto> stringify (JArr [txn_amazon, txn_amazon]))) None
     = Inr (JArr [txn_amazon, txn_amazon])
   \<and> \<not> distinct (ids_of [txn_amazon, txn_amazon])"
  by (simp add: transactionService_save_def transactionService_getAll_def getUserKey_def
      browser_window browser_reads parse_or_default_absent ids_of_def del: stringify.simps)
    (simp add: browser_def del: stringify.simps)

section \<open>The download history\<close>

lemma take_append_take: "take n (xs @ take n ys) = take n (xs @ ys)"
  by (simp add: min_def)

lemma downloadService_save_step:
  assumes "has_window e"
    and "downloadService_getAll e ls u = Inr (JArr init)"
    and "faithful e (JArr (take 50 (d # init)))"
  shows "\<exists>ls'. downloadService_save e ls d u = Inr ls'
      \<and> downloadService_getAll e ls' u = Inr (JArr (take 50 (d # init)))"
  using assms by (simp add: downloadService_save_def downloads_read_after_write del: take_Cons_numeral)

lemma downloadService_saves_run:
  assumes "has_window e"
    and "downloadService_getAll e ls u = Inr (JArr init)"
    and "\<forall>k \<in> {1..Suc (length ds)}. faithful e (JArr (take 50 (rev (take k (d # ds)) @ init)))"
  shows "\<exists>ls'. downloadService_saves e ls (d # ds) u = Inr ls'
      \<and> downloadService_getAll e ls' u = Inr (JArr (take 50 (rev (d # ds) @ init)))"
  using assms(2,3)
proof (induction ds arbitrary: ls init d)
  case Nil
  then have "faithful e (JArr (take 50 (d # init)))"
    by simp
  from downloadService_save_step [OF assms(1) Nil.prems(1) this] show ?case
    by auto
next
  case (Cons d' ds)
  have "faithful e (JArr (take 50 (rev (take 1 (d # d' # ds)) @ init)))"
    using Cons.prems(2) by (intro bspec [OF Cons.prems(2)]) simp
  then have "faithful e (JArr (take 50 (d # init)))"
    by simp
  from downloadService_save_step [OF assms(1) Cons.prems(1) this]
  obtain ls1 where first: "downloadService_save e ls d u = Inr ls1"
    and got: "downloadService_getAll e ls1 u = Inr (JArr (take 50 (d # init)))"
    by blast
  have later: "\<forall>k \<in> {1..Suc (length ds)}.
      faithful e (JArr (take 50 (rev (take k (d' # ds)) @ take 50 (d # init))))"
  proof
    fix k
    assume "k \<in> {1..Suc (length ds)}"
    then have "Suc k \<in> {1..Suc (length (d' # ds))}"
      by simp
    then have "faithful e (JArr (take 50 (rev (take (Suc k) (d # d' # ds)) @ init)))"
      by (rule bspec [OF Cons.prems(2)])
    then show "faithful e (JArr (take 50 (rev (take k (d' # ds)) @ take 50 (d # init))))"
      by (simp only: take_append_take take_Suc_Cons rev.simps append_assoc append_Cons append_Nil)
  qed
  from Cons.IH [OF got later]
  obtain ls' where run: "downloadService_saves e ls1 (d' # ds) u = Inr ls'"
    and final: "downloadService_getAll e ls' u = Inr (JArr (take 50 (rev (d' # ds) @ take 50 (d # init))))"
    by blast
  have same: "take 50 (rev (d' # ds) @ take 50 (d # init)) = take 50 (rev (d # d' # ds) @ init)"
    using take_append_take [of 50 "rev (d' # ds)" "d # init"] by (simp del: take_Cons_numeral)
  have "downloadService_saves e ls (d # d' # ds) u = downloadService_saves e ls1 (d' # ds) u"
    using first by (simp only: downloadService_saves.simps sum.case)
  with run final same show ?case
    by (intro exI [of _ ls']) (simp only: simp_thms)
qed

text \<open>
  Claim C4. The download history never exceeds 50 entries and is kept newest first: after
  any non-empty run of \<open>downloadService.save\<close> calls (oldest first in \<open>ds\<close>) on a history
  \<open>init\<close>, the stored history is the first 50 of the saved records in reverse order
  followed by \<open>init\<close>. So it has at most 50 entries; after 51 saves into an empty history
  exactly the 50 most recent are retained, newest first; and a save into a full history
  drops its last, oldest entry.
\<close>

theorem download_history_bounded:
  assumes "has_window e"
    and "downloadService_getAll e ls u = Inr (JArr init)"
    and "ds \<noteq> []"
    and "\<forall>k \<in> {1..length ds}. faithful e (JArr (take 50 (rev (take k ds) @ init)))"
  shows "(\<exists>ls'. downloadService_saves e ls ds u = Inr ls'
        \<and> downloadService_getAll e ls' u = Inr (JArr (take 50 (rev ds @ init))))
    \<and> length (take 50 (rev ds @ init)) \<le> 50
    \<and> (init = [] \<and> length ds = 51 \<longrightarrow> take 50 (rev ds @ init) = rev (tl ds))
    \<and> (length ds = 1 \<and> length init = 50 \<longrightarrow> take 50 (rev ds @ init) = hd ds # butlast init)"
proof -
  obtain d ds' where ds: "ds = d # ds'"
    using assms(3) by (cases ds) auto
  have run: "\<exists>ls'. downloadService_saves e ls ds u = Inr ls'
        \<and> downloadService_getAll e ls' u = Inr (JArr (take 50 (rev ds @ init)))"
    unfolding ds using assms(1,2) assms(4) [unfolded ds]
    by (intro downloadService_saves_run) simp_all
  have newest: "take 50 (rev ds @ init) = rev (tl ds)" if "init = []" and "length ds = 51"
  proof -
    have "rev ds = rev ds' @ [d]" and "length (rev ds') = 50"
      using that(2) by (simp_all add: ds)
    then show ?thesis
      using that(1) by (simp add: ds)
  qed
  have evict: "take 50 (rev ds @ init) = hd ds # butlast init" if "length ds = 1" and "length init = 50"
  proof -
    have "ds' = []"
      using that(1) by (simp add: ds)
    moreover have "take 49 init = butlast init"
      using that(2) by (simp add: butlast_conv_take)
    ultimately show ?thesis
      by (simp add: ds take_Cons')
  qed
  from run newest evict show ?thesis
    by simp
qed

theorem download_history_bounded_witness:
  "(\<exists>ls'. downloadService_saves browser Map.empty (map download_no [1..<52]) None = Inr ls'
      \<and> downloadService_getAll browser ls' None = Inr (JArr (rev (map download_no [2..<52]))))
   \<and> (\<exists>ls'. downloadService_saves browser
          (Map.empty(STORAGE_KEYS_DOWNLOADS \<mapsto> stringify (JArr (rev (map download_no [1..<51])))))
          [download_no 51] None = Inr ls'
      \<and> downloadService_getAll browser ls' None
          = Inr (JArr (download_no 51 # butlast (rev (map download_no [1..<51])))))"
proof -
  have key: "distinct_keys (download_no n)" for n
    by (simp add: download_no_def)
  define ds where "ds = map download_no [1..<52]"
  have keys: "\<forall>x \<in> set ds. distinct_keys x"
    by (auto simp: ds_def key)
  have init: "downloadService_getAll browser Map.empty None = Inr (JArr [])"
    by (simp add: downloadService_getAll_def getUserKey_def parse_or_default_def browser_window)
  have len: "length ds = 51"
    by (simp add: ds_def)
  then have nonempty: "ds \<noteq> []"
    by auto
  have faith: "\<forall>k \<in> {1..length ds}. faithful browser (JArr (take 50 (rev (take k ds) @ [])))"
  proof (intro ballI browser_faithful)
    fix k
    have "set (take 50 (rev (take k ds) @ [])) \<subseteq> set ds"
      by (auto dest!: in_set_takeD)
    with keys show "distinct_keys (JArr (take 50 (rev (take k ds) @ [])))"
      by auto
  qed
  have "[1..<52] = 1 # [Suc 1..<52]"
    by (rule upt_conv_Cons) simp
  then have "ds = download_no 1 # map download_no [2..<52]"
    by (simp only: ds_def Suc_1 list.map)
  then have rest: "tl ds = map download_no [2..<52]"
    by (simp only: list.sel)
  note bounded = download_history_bounded [OF browser_window init nonempty faith]
  from bounded len have newest: "take 50 (rev ds @ []) = rev (tl ds)"
    by blast
  from bounded have run: "\<exists>ls'. downloadService_saves browser Map.empty ds None = Inr ls'
      \<and> downloadService_getAll browser ls' None = Inr (JArr (take 50 (rev ds @ [])))"
    by blast
  note first = run [unfolded newest rest, unfolded ds_def]
  define full where "full = rev (map download_no [1..<51])"
  have full_keys: "distinct_keys (JArr full)"
    by (auto simp: full_def key)
  have full_len: "length full = 50"
    by (simp add: full_def)
  have stored: "downloadService_getAll browser
      (Map.empty(STORAGE_KEYS_DOWNLOADS \<mapsto> stringify (JArr full))) None = Inr (JArr full)"
    using full_keys
    by (simp add: downloadService_getAll_def getUserKey_def browser_window browser_reads
        del: stringify.simps distinct_keys.simps)
  have faith1: "\<forall>k \<in> {1..length [download_no 51]}.
      faithful browser (JArr (take 50 (rev (take k [download_no 51]) @ full)))"
  proof (intro ballI browser_faithful)
    fix k
    assume "k \<in> {1..length [download_no 51]}"
    then have "k = 1"
      by simp
    have "set (take 50 (download_no 51 # full)) \<subseteq> insert (download_no 51) (set full)"
      using set_take_subset [of 50 "download_no 51 # full"] by simp
    then show "distinct_keys (JArr (take 50 (rev (take k [download_no 51]) @ full)))"
      using full_keys key [of 51] unfolding \<open>k = 1\<close> by (auto simp del: take_Cons_numeral)
  qed
  note bounded1 = download_history_bounded [OF browser_window stored _ faith1]
  from bounded1 full_len
  have evict: "take 50 (rev [download_no 51] @ full) = hd [download_no 51] # butlast full"
    by simp
  from bounded1 have run1: "\<exists>ls'. downloadService_saves browser
        (Map.empty(STORAGE_KEYS_DOWNLOADS \<mapsto> stringify (JArr full))) [download_no 51] None = Inr ls'
      \<and> downloadService_getAll browser ls' None
          = Inr (JArr (take 50 (rev [download_no 51] @ full)))"
    by blast
  note second = run1 [unfolded evict list.sel, unfolded full_def]
  from first second show ?thesis
    by (rule conjI)
qed

section \<open>Key derivation\<close>



text \<open>A session saved for the phone \<open>+911234567890\<close>, as the browser stores it, and two
  facts of the reference environment the examples use.\<close>

lemma example_session_faithful:
  "faithful browser (JObj [(''phone'', JStr ''+911234567890''), (''timestamp'', JStr ''2026-01-01T00:00:00.000Z'')])"
  by (rule browser_faithful) simp






end
